theory Spec2Isabelle
  imports Main "HOL-Library.Word" "HOL-Library.Monad_Syntax" "HOL-Library.Product_Lexorder"
begin

section \<open>The client session of src/lib/client/CClient.cpp\<close>

text \<open>
  The class \<open>CClient\<close> is embedded as a record of its member variables, extended by the
  two pieces of the outside world that its methods act on: the handler table of the event
  queue (\<open>handlers\<close>) and the sequence of calls made to collaborators (\<open>trace\<close>, oldest
  first). A method is a function from the record to the record. A method that can hit an
  \<open>assert\<close> or dereference a null or deleted pointer returns \<open>client option\<close>, where
  \<open>None\<close> is the abort. The screen, the transport factory and the event queue are
  asserted or assumed non-null by the constructor and never reassigned, so they are not
  members of the record. Log output is left out.
\<close>

subsection \<open>Types\<close>

type_synonym ClipboardID = nat
type_synonym Time = "32 word"
type_synonym SInt16 = "16 word"

text \<open>\<open>CBaseAddress::getAddressType()\<close>: \<open>connect\<close> only asks whether it is \<open>Network\<close>.\<close>

datatype address_type = Network | NonNetwork

text \<open>
  Modelled from the spec: the enumeration of \<open>CCryptoOptions::m_mode\<close> is declared outside
  the source files at hand. \<open>connect\<close> names only \<open>kDisabled\<close>; every other mode is
  \<open>kCipher n\<close> ("if crypto is enabled").
\<close>

datatype ECryptoMode = kDisabled | kCipher nat

text \<open>The layers of the stream pipeline, innermost first.\<close>

datatype stream = Socket | StreamFilter stream | CPacketStreamFilter stream | CCryptoStream stream

datatype timer = OneShotTimer nat

datatype server_proxy = CServerProxy stream

datatype event_type =
    IDataTransfer_connected | IDataTransfer_connectionFailed | ISocket_disconnected
  | inputReady | outputError | inputShutdown | outputShutdown
  | kTimer
  | IScreen_shapeChanged | IScreen_clipboardGrabbed | IScreen_suspend | IScreen_resume
  | gameDeviceTimingResp | gameDeviceFeedback

text \<open>
  Event targets. At most one stream and one timer are alive at a time, so one constant
  stands for \<open>m_stream->getEventTarget()\<close> and one for \<open>m_timer\<close>; \<open>ScreenTarget\<close> is
  \<open>getEventTarget()\<close> of the client itself.
\<close>

datatype target = StreamTarget | TimerTarget | ScreenTarget

text \<open>
  The \<open>TMethodEventJob\<close>s, one per handler method. \<open>JProxyHandleData\<close> is the job that
  the server proxy installs for itself (see \<open>setupScreen\<close>).
\<close>

datatype job =
    JConnected | JConnectionFailed | JConnectTimeout | JHello | JOutputError | JDisconnected
  | JShapeChanged | JClipboardGrabbed | JSuspend | JResume
  | JGameDeviceTimingResp | JGameDeviceFeedback | JProxyHandleData

text \<open>Events that the client itself adds to the queue.\<close>

datatype event = Connected | ConnectionFailed string bool | Disconnected | InputReady

datatype action =
    AddEvent event
  | AdoptHandler event_type target job
  | RemoveHandler event_type target
  | NewOneShotTimer nat
  | DeleteTimer
  | Resolve
  | TransportCreate
  | FilterCreate
  | SocketConnect
  | DeleteStream stream
  | NewServerProxy
  | DeleteServerProxy
  | WriteHelloBack SInt16 SInt16 string
  | ScreenEnable
  | ScreenDisable
  | ScreenEnter nat
  | ScreenLeave
  | ScreenMouseMove int int
  | ScreenSetClipboard ClipboardID
  | ScreenGrabClipboard ClipboardID
  | ScreenGetClipboard ClipboardID
  | ScreenForward string
  | ClipboardOpen Time
  | OnGrabClipboard ClipboardID
  | OnClipboardChanged ClipboardID string
  | OnInfoChanged
  | OnGameDeviceTimingResp
  | OnGameDeviceFeedback
  | CryptoSetDecryptIv "8 word list"

record client =
  m_name :: string
  m_serverAddress :: address_type
  m_streamFilterFactory :: bool
  m_crypto_mode :: ECryptoMode
  m_stream :: "stream option"
  m_timer :: "timer option"
  m_server :: "server_proxy option"
  m_ready :: bool
  m_active :: bool
  m_suspended :: bool
  m_connectOnResume :: bool
  m_cryptoStream :: "stream option"
  m_ownClipboard :: "ClipboardID \<Rightarrow> bool"
  m_sentClipboard :: "ClipboardID \<Rightarrow> bool"
  m_timeClipboard :: "ClipboardID \<Rightarrow> Time"
  m_dataClipboard :: "ClipboardID \<Rightarrow> string"
  handlers :: "event_type \<times> target \<Rightarrow> job option"
  trace :: "action list"

text \<open>
  The compile-time constants of \<open>ProtocolTypes.h\<close> and \<open>ClipboardTypes.h\<close>, which are not
  among the source files: they are parameters of the model.
\<close>

record protocol_consts =
  kProtocolMajorVersion :: SInt16
  kProtocolMinorVersion :: SInt16
  kClipboardEnd :: nat

text \<open>
  What the outside world answers during one invocation of a method: whether a call in the
  \<open>try\<close> block of \<open>connect\<close> throws an \<open>XBase\<close> (and its \<open>what()\<close>), what
  \<open>CProtocolUtil::readf\<close> reads, \<open>m_stream->isReady()\<close>, what \<open>clipboard.getTime()\<close>
  and \<open>clipboard.marshall()\<close> return after \<open>m_screen->getClipboard(id, &clipboard)\<close>, and
  the data carried by the dispatched event.
\<close>

record env =
  resolve_throws :: "string option"
  create_throws :: "string option"
  filter_throws :: "string option"
  socket_connect_throws :: "string option"
  readf_hello :: "(SInt16 \<times> SInt16) option"
  stream_isReady :: bool
  screen_getClipboard :: "ClipboardID \<Rightarrow> Time \<times> string"
  info_what :: string
  info_id :: ClipboardID

subsection \<open>Event queue and event emission\<close>

definition emit :: "action \<Rightarrow> client \<Rightarrow> client" where
  "emit a s = s\<lparr>trace := trace s @ [a]\<rparr>"

definition adoptHandler :: "event_type \<Rightarrow> target \<Rightarrow> job \<Rightarrow> client \<Rightarrow> client" where
  "adoptHandler et tg j s =
     emit (AdoptHandler et tg j) (s\<lparr>handlers := (handlers s)((et, tg) \<mapsto> j)\<rparr>)"

definition removeHandler :: "event_type \<Rightarrow> target \<Rightarrow> client \<Rightarrow> client" where
  "removeHandler et tg s =
     emit (RemoveHandler et tg) (s\<lparr>handlers := (handlers s)((et, tg) := None)\<rparr>)"

text \<open>Statements executed one after the other, in the order of the source.\<close>

definition run :: "(client \<Rightarrow> client) list \<Rightarrow> client \<Rightarrow> client" where
  "run fs s = fold (\<lambda>f. f) fs s"

definition sendEvent :: "event \<Rightarrow> client \<Rightarrow> client" where
  "sendEvent ev s = emit (AddEvent ev) s"

text \<open>\<open>CFailInfo(msg)\<close> with \<open>m_retry = true\<close>.\<close>

definition sendConnectionFailedEvent :: "string \<Rightarrow> client \<Rightarrow> client" where
  "sendConnectionFailedEvent msg s = emit (AddEvent (ConnectionFailed msg True)) s"

subsection \<open>Setup and cleanup\<close>

definition setupConnecting :: "client \<Rightarrow> client option" where
  "setupConnecting s =
     (if m_stream s = None then None
      else Some (run [adoptHandler IDataTransfer_connected StreamTarget JConnected,
                      adoptHandler IDataTransfer_connectionFailed StreamTarget JConnectionFailed] s))"

definition setupConnection :: "client \<Rightarrow> client option" where
  "setupConnection s =
     (if m_stream s = None then None
      else Some (run [adoptHandler ISocket_disconnected StreamTarget JDisconnected,
                      adoptHandler inputReady StreamTarget JHello,
                      adoptHandler outputError StreamTarget JOutputError,
                      adoptHandler inputShutdown StreamTarget JDisconnected,
                      adoptHandler outputShutdown StreamTarget JDisconnected] s))"

text \<open>
  Modelled from the spec: the class \<open>CServerProxy\<close> is not among the source files. Its
  constructor is given what section 4.2 says of it: it is handed the stream and "parses
  all subsequent inbound messages", that is, it takes over the \<open>inputReady\<close> handler of
  the stream; its destructor (in \<open>cleanupScreen\<close>) releases that handler.
\<close>

definition new_CServerProxy :: "client \<Rightarrow> client option" where
  "new_CServerProxy s =
     (case m_stream s of
        None \<Rightarrow> None
      | Some st \<Rightarrow> Some (adoptHandler inputReady StreamTarget JProxyHandleData
                          (emit NewServerProxy (s\<lparr>m_server := Some (CServerProxy st)\<rparr>))))"

definition delete_CServerProxy :: "client \<Rightarrow> client" where
  "delete_CServerProxy s = emit DeleteServerProxy (removeHandler inputReady StreamTarget s)"

definition setupScreen :: "client \<Rightarrow> client option" where
  "setupScreen s =
     (if m_server s \<noteq> None then None
      else do {
        s1 \<leftarrow> new_CServerProxy (s\<lparr>m_ready := False\<rparr>);
        Some (run [adoptHandler IScreen_shapeChanged ScreenTarget JShapeChanged,
                   adoptHandler IScreen_clipboardGrabbed ScreenTarget JClipboardGrabbed] s1)
      })"

definition setupTimer :: "client \<Rightarrow> client option" where
  "setupTimer s =
     (if m_timer s \<noteq> None then None
      else Some (run [emit (NewOneShotTimer 15),
                      adoptHandler kTimer TimerTarget JConnectTimeout]
                   (s\<lparr>m_timer := Some (OneShotTimer 15)\<rparr>)))"

definition cleanupConnecting :: "client \<Rightarrow> client" where
  "cleanupConnecting s =
     (if m_stream s \<noteq> None
      then run [removeHandler IDataTransfer_connected StreamTarget,
                removeHandler IDataTransfer_connectionFailed StreamTarget] s
      else s)"

text \<open>\<open>delete m_stream; m_stream = NULL;\<close> (deleting a null pointer does nothing).\<close>

definition delete_stream :: "client \<Rightarrow> client" where
  "delete_stream s =
     (case m_stream s of
        None \<Rightarrow> s
      | Some st \<Rightarrow> (emit (DeleteStream st) s)\<lparr>m_stream := None\<rparr>)"

definition cleanupConnection :: "client \<Rightarrow> client" where
  "cleanupConnection s =
     (if m_stream s \<noteq> None
      then run [removeHandler inputReady StreamTarget,
                removeHandler outputError StreamTarget,
                removeHandler inputShutdown StreamTarget,
                removeHandler outputShutdown StreamTarget,
                removeHandler ISocket_disconnected StreamTarget,
                delete_stream] s
      else s)"

definition cleanupScreen :: "client \<Rightarrow> client" where
  "cleanupScreen s =
     (if m_server s \<noteq> None
      then run [\<lambda>s. if m_ready s then (emit ScreenDisable s)\<lparr>m_ready := False\<rparr> else s,
                removeHandler IScreen_shapeChanged ScreenTarget,
                removeHandler IScreen_clipboardGrabbed ScreenTarget,
                delete_CServerProxy,
                \<lambda>s. s\<lparr>m_server := None\<rparr>] s
      else s)"

definition cleanupTimer :: "client \<Rightarrow> client" where
  "cleanupTimer s =
     (if m_timer s \<noteq> None
      then run [removeHandler kTimer TimerTarget,
                emit DeleteTimer,
                \<lambda>s. s\<lparr>m_timer := None\<rparr>] s
      else s)"

subsection \<open>Construction\<close>

text \<open>
  The constructor. The arrays \<open>m_ownClipboard\<close>, \<open>m_sentClipboard\<close> and
  \<open>m_timeClipboard\<close> are not initialised by it, so their first contents are arguments
  of the model; \<open>m_dataClipboard\<close> holds default-constructed (empty) strings.
\<close>

definition CClient_ctor ::
  "string \<Rightarrow> address_type \<Rightarrow> bool \<Rightarrow> ECryptoMode \<Rightarrow>
   (ClipboardID \<Rightarrow> bool) \<Rightarrow> (ClipboardID \<Rightarrow> bool) \<Rightarrow> (ClipboardID \<Rightarrow> Time) \<Rightarrow> client" where
  "CClient_ctor name address streamFilterFactory crypto own0 sent0 time0 =
     run [adoptHandler IScreen_suspend ScreenTarget JSuspend,
          adoptHandler IScreen_resume ScreenTarget JResume,
          adoptHandler gameDeviceTimingResp ScreenTarget JGameDeviceTimingResp,
          adoptHandler gameDeviceFeedback ScreenTarget JGameDeviceFeedback]
       \<lparr> m_name = name, m_serverAddress = address,
         m_streamFilterFactory = streamFilterFactory, m_crypto_mode = crypto,
         m_stream = None, m_timer = None, m_server = None,
         m_ready = False, m_active = False, m_suspended = False,
         m_connectOnResume = False, m_cryptoStream = None,
         m_ownClipboard = own0, m_sentClipboard = sent0, m_timeClipboard = time0,
         m_dataClipboard = (\<lambda>_. []),
         handlers = Map.empty, trace = [] \<rparr>"

subsection \<open>connect and disconnect\<close>

text \<open>The \<open>catch (XBase& e)\<close> block of \<open>connect\<close>.\<close>

definition connect_catch :: "string \<Rightarrow> client \<Rightarrow> client" where
  "connect_catch what s =
     run [cleanupTimer, cleanupConnecting, delete_stream, sendConnectionFailedEvent what] s"

text \<open>
  The layers built on top of the socket: the user filter if a factory is configured, the
  packet framer, and the crypto layer unless crypto is disabled (which also sets
  \<open>m_cryptoStream\<close>).
\<close>

definition wrap_packet_crypto :: "client \<Rightarrow> client" where
  "wrap_packet_crypto s =
     (let s1 = s\<lparr>m_stream := map_option CPacketStreamFilter (m_stream s)\<rparr>
      in if m_crypto_mode s1 \<noteq> kDisabled
         then s1\<lparr>m_cryptoStream := map_option CCryptoStream (m_stream s1),
                 m_stream := map_option CCryptoStream (m_stream s1)\<rparr>
         else s1)"

definition connect_start :: "env \<Rightarrow> client \<Rightarrow> client option" where
  "connect_start e s = do {
     s1 \<leftarrow> setupConnecting s;
     s2 \<leftarrow> setupTimer s1;
     (case socket_connect_throws e of
        Some what \<Rightarrow> Some (connect_catch what (emit SocketConnect s2))
      | None \<Rightarrow> Some (emit SocketConnect s2))
   }"

definition connect_build :: "env \<Rightarrow> client \<Rightarrow> client option" where
  "connect_build e s =
     (case create_throws e of
        Some what \<Rightarrow> Some (connect_catch what (emit TransportCreate s))
      | None \<Rightarrow>
          (let s1 = (emit TransportCreate s)\<lparr>m_stream := Some Socket\<rparr>
           in if m_streamFilterFactory s1
              then (case filter_throws e of
                      Some what \<Rightarrow> Some (connect_catch what (emit FilterCreate s1))
                    | None \<Rightarrow>
                        connect_start e
                          (wrap_packet_crypto
                            ((emit FilterCreate s1)\<lparr>m_stream := Some (StreamFilter Socket)\<rparr>)))
              else connect_start e (wrap_packet_crypto s1)))"

definition connect :: "env \<Rightarrow> client \<Rightarrow> client option" where
  "connect e s =
     (if m_stream s \<noteq> None then Some s
      else if m_suspended s then Some (s\<lparr>m_connectOnResume := True\<rparr>)
      else if m_serverAddress s = Network
      then (case resolve_throws e of
              Some what \<Rightarrow> Some (connect_catch what (emit Resolve s))
            | None \<Rightarrow> connect_build e (emit Resolve s))
      else connect_build e s)"

definition disconnect :: "string option \<Rightarrow> client \<Rightarrow> client" where
  "disconnect msg s =
     run [\<lambda>s. s\<lparr>m_connectOnResume := False\<rparr>,
          cleanupTimer, cleanupScreen, cleanupConnecting, cleanupConnection,
          (case msg of
             Some m \<Rightarrow> sendConnectionFailedEvent m
           | None \<Rightarrow> sendEvent Disconnected)] s"

definition isConnected :: "client \<Rightarrow> bool" where
  "isConnected s = (m_server s \<noteq> None)"

definition isConnecting :: "client \<Rightarrow> bool" where
  "isConnecting s = (m_timer s \<noteq> None)"

subsection \<open>Methods called by the server proxy\<close>

definition handshakeComplete :: "client \<Rightarrow> client" where
  "handshakeComplete s =
     run [\<lambda>s. s\<lparr>m_ready := True\<rparr>, emit ScreenEnable, sendEvent Connected] s"

text \<open>
  \<open>m_cryptoStream\<close> is set by \<open>connect\<close> and never reset, so after a teardown it still
  points to the deleted top layer; calling through it then is an abort of the model. The
  crypto layer is alive exactly when it is the current \<open>m_stream\<close>.
\<close>

definition setDecryptIv :: "8 word list \<Rightarrow> client \<Rightarrow> client option" where
  "setDecryptIv iv s =
     (case m_cryptoStream s of
        None \<Rightarrow> Some s
      | Some c \<Rightarrow> if m_stream s = Some c then Some (emit (CryptoSetDecryptIv iv) s) else None)"

definition enter :: "int \<Rightarrow> int \<Rightarrow> nat \<Rightarrow> client \<Rightarrow> client" where
  "enter xAbs yAbs modmask s =
     run [\<lambda>s. s\<lparr>m_active := True\<rparr>, emit (ScreenMouseMove xAbs yAbs), emit (ScreenEnter modmask)] s"

definition sendClipboard :: "env \<Rightarrow> ClipboardID \<Rightarrow> client \<Rightarrow> client option" where
  "sendClipboard e cid s =
     (if m_server s = None then None
      else
        let s1 = run [emit (ClipboardOpen (m_timeClipboard s cid)), emit (ScreenGetClipboard cid)] s;
            time = fst (screen_getClipboard e cid);
            data = snd (screen_getClipboard e cid)
        in if m_timeClipboard s1 cid = 0 \<or> time \<noteq> m_timeClipboard s1 cid
           then
             let s2 = s1\<lparr>m_timeClipboard := (m_timeClipboard s1)(cid := time)\<rparr>
             in if \<not> m_sentClipboard s2 cid \<or> data \<noteq> m_dataClipboard s2 cid
                then Some (emit (OnClipboardChanged cid data)
                             (s2\<lparr>m_sentClipboard := (m_sentClipboard s2)(cid := True),
                                 m_dataClipboard := (m_dataClipboard s2)(cid := data)\<rparr>))
                else Some s2
           else Some s1)"

text \<open>The loop of \<open>leave\<close> over the clipboard ids, as a recursion over the list of ids.\<close>

primrec sendOwned :: "env \<Rightarrow> ClipboardID list \<Rightarrow> client \<Rightarrow> client option" where
  "sendOwned e [] s = Some s"
| "sendOwned e (cid # cids) s =
     (if m_ownClipboard s cid
      then (case sendClipboard e cid s of None \<Rightarrow> None | Some s1 \<Rightarrow> sendOwned e cids s1)
      else sendOwned e cids s)"

definition leave :: "protocol_consts \<Rightarrow> env \<Rightarrow> client \<Rightarrow> client option" where
  "leave K e s =
     sendOwned e [0..<kClipboardEnd K] (run [emit ScreenLeave, \<lambda>s. s\<lparr>m_active := False\<rparr>] s)"

definition setClipboard :: "ClipboardID \<Rightarrow> client \<Rightarrow> client" where
  "setClipboard cid s =
     run [emit (ScreenSetClipboard cid),
          \<lambda>s. s\<lparr>m_ownClipboard := (m_ownClipboard s)(cid := False),
                m_sentClipboard := (m_sentClipboard s)(cid := False)\<rparr>] s"

definition grabClipboard :: "ClipboardID \<Rightarrow> client \<Rightarrow> client" where
  "grabClipboard cid s =
     run [emit (ScreenGrabClipboard cid),
          \<lambda>s. s\<lparr>m_ownClipboard := (m_ownClipboard s)(cid := False),
                m_sentClipboard := (m_sentClipboard s)(cid := False)\<rparr>] s"

subsection \<open>Event handlers\<close>

definition resetClipboard :: "ClipboardID \<Rightarrow> client \<Rightarrow> client" where
  "resetClipboard cid s =
     s\<lparr>m_ownClipboard := (m_ownClipboard s)(cid := False),
       m_sentClipboard := (m_sentClipboard s)(cid := False),
       m_timeClipboard := (m_timeClipboard s)(cid := 0)\<rparr>"

definition handleConnected :: "protocol_consts \<Rightarrow> client \<Rightarrow> client option" where
  "handleConnected K s = do {
     s1 \<leftarrow> setupConnection (cleanupConnecting s);
     Some (fold resetClipboard [0..<kClipboardEnd K] s1)
   }"

definition handleConnectionFailed :: "env \<Rightarrow> client \<Rightarrow> client" where
  "handleConnectionFailed e s =
     run [cleanupTimer, cleanupConnecting, delete_stream,
          sendConnectionFailedEvent (info_what e)] s"

definition handleConnectTimeout :: "client \<Rightarrow> client" where
  "handleConnectTimeout s =
     run [cleanupTimer, cleanupConnecting, cleanupConnection, delete_stream,
          sendConnectionFailedEvent ''Timed out''] s"

definition handleOutputError :: "client \<Rightarrow> client" where
  "handleOutputError s =
     run [cleanupTimer, cleanupScreen, cleanupConnection, sendEvent Disconnected] s"

definition handleDisconnected :: "client \<Rightarrow> client" where
  "handleDisconnected s =
     run [cleanupTimer, cleanupScreen, cleanupConnection, sendEvent Disconnected] s"

definition handleShapeChanged :: "client \<Rightarrow> client option" where
  "handleShapeChanged s = (if m_server s = None then None else Some (emit OnInfoChanged s))"

definition handleClipboardGrabbed :: "env \<Rightarrow> client \<Rightarrow> client option" where
  "handleClipboardGrabbed e s =
     (if m_server s = None then None
      else
        let cid = info_id e;
            s1 = emit (OnGrabClipboard cid) s;
            s2 = s1\<lparr>m_ownClipboard := (m_ownClipboard s1)(cid := True),
                    m_sentClipboard := (m_sentClipboard s1)(cid := False),
                    m_timeClipboard := (m_timeClipboard s1)(cid := 0)\<rparr>
        in if \<not> m_active s2 then sendClipboard e cid s2 else Some s2)"

text \<open>
  Modelled from the spec: \<open>XIncompatibleClient::what()\<close> is defined outside the source
  files at hand. Section 7 and scenario 2 give its text: "incompatible version M.m", the
  two numbers in decimal.
\<close>

fun dec_nat :: "nat \<Rightarrow> string" where
  "dec_nat n =
     (if n < 10 then [''0123456789'' ! n]
      else dec_nat (n div 10) @ [''0123456789'' ! (n mod 10)])"

definition dec_int :: "int \<Rightarrow> string" where
  "dec_int i = (if i < 0 then CHR ''-'' # dec_nat (nat (- i)) else dec_nat (nat i))"

definition XIncompatibleClient_what :: "SInt16 \<Rightarrow> SInt16 \<Rightarrow> string" where
  "XIncompatibleClient_what major minor =
     ''incompatible version '' @ dec_int (sint major) @ ''.'' @ dec_int (sint minor)"

text \<open>
  \<open>major\<close>, \<open>minor\<close> and the two constants are \<open>SInt16\<close>: the comparisons are signed.
\<close>

definition handleHello :: "protocol_consts \<Rightarrow> env \<Rightarrow> client \<Rightarrow> client option" where
  "handleHello K e s =
     (if m_stream s = None then None
      else
        (case readf_hello e of
           None \<Rightarrow>
             Some (run [sendConnectionFailedEvent ''Protocol error from server'',
                        cleanupTimer, cleanupConnection] s)
         | Some (major, minor) \<Rightarrow>
             if sint major < sint (kProtocolMajorVersion K) \<or>
                (major = kProtocolMajorVersion K \<and> sint minor < sint (kProtocolMinorVersion K))
             then Some (run [sendConnectionFailedEvent (XIncompatibleClient_what major minor),
                             cleanupTimer, cleanupConnection] s)
             else do {
               s1 \<leftarrow> setupScreen
                      (emit (WriteHelloBack (kProtocolMajorVersion K) (kProtocolMinorVersion K)
                               (m_name s)) s);
               Some (run [cleanupTimer,
                          \<lambda>s. if stream_isReady e then sendEvent InputReady s else s] s1)
             }))"

definition handleSuspend :: "client \<Rightarrow> client" where
  "handleSuspend s =
     (let s1 = s\<lparr>m_suspended := True\<rparr>;
          wasConnected = isConnected s1;
          s2 = disconnect None s1
      in s2\<lparr>m_connectOnResume := wasConnected\<rparr>)"

definition handleResume :: "env \<Rightarrow> client \<Rightarrow> client option" where
  "handleResume e s =
     (let s1 = s\<lparr>m_suspended := False\<rparr>
      in if m_connectOnResume s1 then connect e (s1\<lparr>m_connectOnResume := False\<rparr>)
         else Some s1)"

definition handleGameDeviceTimingResp :: "client \<Rightarrow> client option" where
  "handleGameDeviceTimingResp s =
     (if m_server s = None then None else Some (emit OnGameDeviceTimingResp s))"

definition handleGameDeviceFeedback :: "client \<Rightarrow> client option" where
  "handleGameDeviceFeedback s =
     (if m_server s = None then None else Some (emit OnGameDeviceFeedback s))"

subsection \<open>Handler invocations and reachable states\<close>

text \<open>
  The event queue runs the job registered for an event. The job of the server proxy
  changes the client only through the methods below (\<open>proxy_call\<close>).
\<close>

fun run_job :: "protocol_consts \<Rightarrow> env \<Rightarrow> job \<Rightarrow> client \<Rightarrow> client option" where
  "run_job K e JConnected s = handleConnected K s"
| "run_job K e JConnectionFailed s = Some (handleConnectionFailed e s)"
| "run_job K e JConnectTimeout s = Some (handleConnectTimeout s)"
| "run_job K e JHello s = handleHello K e s"
| "run_job K e JOutputError s = Some (handleOutputError s)"
| "run_job K e JDisconnected s = Some (handleDisconnected s)"
| "run_job K e JShapeChanged s = handleShapeChanged s"
| "run_job K e JClipboardGrabbed s = handleClipboardGrabbed e s"
| "run_job K e JSuspend s = Some (handleSuspend s)"
| "run_job K e JResume s = handleResume e s"
| "run_job K e JGameDeviceTimingResp s = handleGameDeviceTimingResp s"
| "run_job K e JGameDeviceFeedback s = handleGameDeviceFeedback s"
| "run_job K e JProxyHandleData s = Some s"

text \<open>
  The methods that the server proxy calls on the client. \<open>PForward\<close> stands for the
  key, mouse, screensaver, option and game-device methods, each of which only passes its
  arguments on to the screen. \<open>setClipboardDirty\<close> is no call: it is \<open>assert(0)\<close>.
\<close>

datatype proxy_call =
    PHandshakeComplete
  | PSetDecryptIv "8 word list"
  | PEnter int int nat
  | PLeave
  | PSetClipboard ClipboardID
  | PGrabClipboard ClipboardID
  | PForward string

fun call_method :: "protocol_consts \<Rightarrow> env \<Rightarrow> proxy_call \<Rightarrow> client \<Rightarrow> client option" where
  "call_method K e PHandshakeComplete s = Some (handshakeComplete s)"
| "call_method K e (PSetDecryptIv iv) s = setDecryptIv iv s"
| "call_method K e (PEnter x y modmask) s = Some (enter x y modmask s)"
| "call_method K e PLeave s = leave K e s"
| "call_method K e (PSetClipboard cid) s = Some (setClipboard cid s)"
| "call_method K e (PGrabClipboard cid) s = Some (grabClipboard cid s)"
| "call_method K e (PForward name) s = Some (emit (ScreenForward name) s)"

text \<open>
  One completed invocation from outside: the application calls \<open>connect\<close> or
  \<open>disconnect\<close>, the event queue dispatches an event to the job registered for it (an
  event without a handler is dropped), or the server proxy, while it exists, calls a
  method of the client.
\<close>

datatype call =
    CConnect
  | CDisconnect "string option"
  | CDispatch event_type target
  | CProxy proxy_call

fun step :: "protocol_consts \<Rightarrow> env \<Rightarrow> call \<Rightarrow> client \<Rightarrow> client option" where
  "step K e CConnect s = connect e s"
| "step K e (CDisconnect msg) s = Some (disconnect msg s)"
| "step K e (CDispatch et tg) s =
     (case handlers s (et, tg) of None \<Rightarrow> Some s | Some j \<Rightarrow> run_job K e j s)"
| "step K e (CProxy c) s = (if m_server s = None then None else call_method K e c s)"

fun steps :: "protocol_consts \<Rightarrow> (env \<times> call) list \<Rightarrow> client \<Rightarrow> client option" where
  "steps K [] s = Some s"
| "steps K ((e, c) # cs) s =
     (case step K e c s of None \<Rightarrow> None | Some s1 \<Rightarrow> steps K cs s1)"

text \<open>The states of the session after any sequence of completed invocations.\<close>

inductive reachable :: "protocol_consts \<Rightarrow> client \<Rightarrow> bool" for K :: protocol_consts where
  r_ctor: "reachable K (CClient_ctor name address filterFactory crypto own0 sent0 time0)"
| r_step: "reachable K s \<Longrightarrow> step K e c s = Some s' \<Longrightarrow> reachable K s'"

text \<open>
  The source keeps no state variable; the state of section 4.4 is read off the members:
  Idle when there is no stream, Connecting while the handler of the transport's
  \<open>connected\<close> event is registered, AwaitingHello while there is a stream but no
  server proxy, Active otherwise.
\<close>

datatype phase = Idle | Connecting | AwaitingHello | Active

definition phase_of :: "client \<Rightarrow> phase" where
  "phase_of s =
     (if m_stream s = None then Idle
      else if handlers s (IDataTransfer_connected, StreamTarget) = Some JConnected then Connecting
      else if m_server s = None then AwaitingHello
      else Active)"

text \<open>
  The handlers that each state keeps registered: those of the constructor always, those
  of \<open>setupConnecting\<close> and \<open>setupTimer\<close> while connecting, those of
  \<open>setupConnection\<close> afterwards, and those of \<open>setupScreen\<close> once the proxy exists.
\<close>

definition base_handlers :: "event_type \<times> target \<Rightarrow> job option" where
  "base_handlers =
     [(IScreen_suspend, ScreenTarget) \<mapsto> JSuspend,
      (IScreen_resume, ScreenTarget) \<mapsto> JResume,
      (gameDeviceTimingResp, ScreenTarget) \<mapsto> JGameDeviceTimingResp,
      (gameDeviceFeedback, ScreenTarget) \<mapsto> JGameDeviceFeedback]"

definition connection_handlers :: "job \<Rightarrow> event_type \<times> target \<Rightarrow> job option" where
  "connection_handlers onInput =
     base_handlers
       ((ISocket_disconnected, StreamTarget) \<mapsto> JDisconnected,
        (inputReady, StreamTarget) \<mapsto> onInput,
        (outputError, StreamTarget) \<mapsto> JOutputError,
        (inputShutdown, StreamTarget) \<mapsto> JDisconnected,
        (outputShutdown, StreamTarget) \<mapsto> JDisconnected)"

fun expected_handlers :: "phase \<Rightarrow> event_type \<times> target \<Rightarrow> job option" where
  "expected_handlers Idle = base_handlers"
| "expected_handlers Connecting =
     base_handlers
       ((IDataTransfer_connected, StreamTarget) \<mapsto> JConnected,
        (IDataTransfer_connectionFailed, StreamTarget) \<mapsto> JConnectionFailed,
        (kTimer, TimerTarget) \<mapsto> JConnectTimeout)"
| "expected_handlers AwaitingHello =
     (connection_handlers JHello)((kTimer, TimerTarget) \<mapsto> JConnectTimeout)"
| "expected_handlers Active =
     (connection_handlers JProxyHandleData)
       ((IScreen_shapeChanged, ScreenTarget) \<mapsto> JShapeChanged,
        (IScreen_clipboardGrabbed, ScreenTarget) \<mapsto> JClipboardGrabbed)"

text \<open>
  What section 4.4 says of each state, in terms of the members: which of the stream,
  the handshake timer and the server proxy exist, and which handlers are registered.
\<close>

definition in_phase :: "phase \<Rightarrow> client \<Rightarrow> bool" where
  "in_phase ph s =
     (handlers s = expected_handlers ph \<and>
      (m_stream s \<noteq> None) = (ph \<noteq> Idle) \<and>
      (m_timer s \<noteq> None) = (ph = Connecting \<or> ph = AwaitingHello) \<and>
      (m_server s \<noteq> None) = (ph = Active))"

definition all_event_types :: "event_type list" where
  "all_event_types =
     [IDataTransfer_connected, IDataTransfer_connectionFailed, ISocket_disconnected,
      inputReady, outputError, inputShutdown, outputShutdown, kTimer,
      IScreen_shapeChanged, IScreen_clipboardGrabbed, IScreen_suspend, IScreen_resume,
      gameDeviceTimingResp, gameDeviceFeedback]"

subsection \<open>Observations on traces\<close>

text \<open>The calls that an invocation taking \<open>s\<close> to \<open>s'\<close> has added to the trace.\<close>

definition appended :: "client \<Rightarrow> client \<Rightarrow> action list" where
  "appended s s' = drop (length (trace s)) (trace s')"

fun is_lifecycle :: "action \<Rightarrow> bool" where
  "is_lifecycle (AddEvent Connected) = True"
| "is_lifecycle (AddEvent (ConnectionFailed msg retry)) = True"
| "is_lifecycle (AddEvent Disconnected) = True"
| "is_lifecycle a = False"

fun is_teardown :: "action \<Rightarrow> bool" where
  "is_teardown (RemoveHandler et tg) = True"
| "is_teardown DeleteTimer = True"
| "is_teardown (DeleteStream st) = True"
| "is_teardown DeleteServerProxy = True"
| "is_teardown ScreenDisable = True"
| "is_teardown a = False"

text \<open>
  Teardown before the lifecycle event: the last call is the lifecycle event, and
  everything before it is teardown.
\<close>

definition teardown_then_event :: "action list \<Rightarrow> bool" where
  "teardown_then_event acts =
     (acts \<noteq> [] \<and> is_lifecycle (last acts) \<and> list_all is_teardown (butlast acts))"

fun is_payload :: "ClipboardID \<Rightarrow> action \<Rightarrow> bool" where
  "is_payload cid (OnClipboardChanged cid' d) = (cid' = cid)"
| "is_payload cid a = False"

text \<open>Every \<open>ConnectionFailed\<close> event in a trace carries the retry hint.\<close>

fun retry_ok :: "action \<Rightarrow> bool" where
  "retry_ok (AddEvent (ConnectionFailed msg retry)) = retry"
| "retry_ok a = True"

text \<open>
  Two facts about every reachable state: all \<open>ConnectionFailed\<close> events so far carry
  the retry hint, and with crypto disabled \<open>m_cryptoStream\<close> is still null.
\<close>

definition side_inv :: "client \<Rightarrow> bool" where
  "side_inv s =
     (list_all retry_ok (trace s) \<and> (m_crypto_mode s = kDisabled \<longrightarrow> m_cryptoStream s = None))"

text \<open>
  The members that the methods of the dispatcher and the screen-event handlers leave
  alone: they only touch the clipboard arrays, \<open>m_active\<close>, \<open>m_ready\<close> and the trace,
  and add no \<open>ConnectionFailed\<close> event.
\<close>

definition same_session :: "client \<Rightarrow> client \<Rightarrow> bool" where
  "same_session s s' =
     (handlers s' = handlers s \<and> m_stream s' = m_stream s \<and> m_timer s' = m_timer s \<and>
      m_server s' = m_server s \<and> m_cryptoStream s' = m_cryptoStream s \<and>
      m_crypto_mode s' = m_crypto_mode s \<and> m_suspended s' = m_suspended s \<and>
      m_connectOnResume s' = m_connectOnResume s \<and>
      list_all retry_ok (trace s') = list_all retry_ok (trace s))"

text \<open>
  The members that connecting and tearing down leave alone: everything but the stream,
  the timer, the proxy, \<open>m_ready\<close>, \<open>m_cryptoStream\<close>, the handler table and the trace.
\<close>

definition keeps_settings :: "client \<Rightarrow> client \<Rightarrow> bool" where
  "keeps_settings s s' =
     (m_name s' = m_name s \<and> m_serverAddress s' = m_serverAddress s \<and>
      m_streamFilterFactory s' = m_streamFilterFactory s \<and> m_crypto_mode s' = m_crypto_mode s \<and>
      m_active s' = m_active s \<and> m_suspended s' = m_suspended s \<and>
      m_connectOnResume s' = m_connectOnResume s \<and>
      m_ownClipboard s' = m_ownClipboard s \<and> m_sentClipboard s' = m_sentClipboard s \<and>
      m_timeClipboard s' = m_timeClipboard s \<and> m_dataClipboard s' = m_dataClipboard s)"

text \<open>How often the transport was asked to connect.\<close>

definition socket_connects :: "client \<Rightarrow> nat" where
  "socket_connects s = count_list (trace s) SocketConnect"

fun is_any_payload :: "action \<Rightarrow> bool" where
  "is_any_payload (OnClipboardChanged cid d) = True"
| "is_any_payload a = False"

text \<open>
  The two conditions of section 4.3, in the spec's words: "\<open>time[id]==0\<close> or the new
  timestamp differs from \<open>time[id]\<close>", and "\<open>sent[id]\<close> is false or the marshalled bytes
  differ from \<open>lastPayload[id]\<close>".
\<close>

definition spec_time_changed :: "env \<Rightarrow> client \<Rightarrow> ClipboardID \<Rightarrow> bool" where
  "spec_time_changed e s cid =
     (m_timeClipboard s cid = 0 \<or> fst (screen_getClipboard e cid) \<noteq> m_timeClipboard s cid)"

definition spec_must_transmit :: "env \<Rightarrow> client \<Rightarrow> ClipboardID \<Rightarrow> bool" where
  "spec_must_transmit e s cid =
     (\<not> m_sentClipboard s cid \<or> snd (screen_getClipboard e cid) \<noteq> m_dataClipboard s cid)"

text \<open>A slot whose payload \<open>leave\<close> has to transmit, and two states that agree on a slot.\<close>

definition slot_pending :: "env \<Rightarrow> client \<Rightarrow> ClipboardID \<Rightarrow> bool" where
  "slot_pending e s cid =
     (m_ownClipboard s cid \<and> spec_time_changed e s cid \<and> spec_must_transmit e s cid)"

definition same_slot :: "client \<Rightarrow> client \<Rightarrow> ClipboardID \<Rightarrow> bool" where
  "same_slot s s' cid =
     (m_ownClipboard s' cid = m_ownClipboard s cid \<and>
      m_sentClipboard s' cid = m_sentClipboard s cid \<and>
      m_timeClipboard s' cid = m_timeClipboard s cid \<and>
      m_dataClipboard s' cid = m_dataClipboard s cid)"

subsection \<open>A concrete session\<close>

text \<open>
  The session of the end-to-end scenarios: compiled version 1.6, two clipboards, a
  client named "myclient" on a network address, no user filter, crypto disabled.
\<close>

definition K16 :: protocol_consts where
  "K16 = \<lparr>kProtocolMajorVersion = 1, kProtocolMinorVersion = 6, kClipboardEnd = 2\<rparr>"

definition env0 :: env where
  "env0 = \<lparr>resolve_throws = None, create_throws = None, filter_throws = None,
           socket_connect_throws = None, readf_hello = Some (1, 6), stream_isReady = False,
           screen_getClipboard = (\<lambda>_. (7, ''A'')), info_what = ''refused'', info_id = 0\<rparr>"

definition client0 :: client where
  "client0 = CClient_ctor ''myclient'' Network False kDisabled
               (\<lambda>_. False) (\<lambda>_. False) (\<lambda>_. 0)"

definition to_awaiting :: "(env \<times> call) list" where
  "to_awaiting = [(env0, CConnect), (env0, CDispatch IDataTransfer_connected StreamTarget)]"

definition to_active :: "(env \<times> call) list" where
  "to_active = to_awaiting @ [(env0, CDispatch inputReady StreamTarget),
                              (env0, CProxy PHandshakeComplete)]"

text \<open>The session waiting for the Hello message, and the session after the handshake.\<close>

definition session_awaiting :: client where
  "session_awaiting = the (steps K16 to_awaiting client0)"

definition session_active :: client where
  "session_active = the (steps K16 to_active client0)"

definition session_connecting :: client where
  "session_connecting = the (steps K16 [(env0, CConnect)] client0)"

text \<open>Scenario 4: the active session is suspended and then resumed.\<close>

definition session_resumed :: client where
  "session_resumed = the (handleResume env0 (handleSuspend session_active))"

text \<open>
  Scenarios 1, 2 and 6: the first frame is a Hello of version 1.6, a Hello of version
  1.2, and no Hello at all.
\<close>

definition env_old :: env where
  "env_old = env0\<lparr>readf_hello := Some (1, 2)\<rparr>"

definition env_garbled :: env where
  "env_garbled = env0\<lparr>readf_hello := None\<rparr>"

definition session_hello :: client where
  "session_hello = the (handleHello K16 env0 session_awaiting)"

definition session_refused :: client where
  "session_refused = the (handleHello K16 env_old session_awaiting)"

definition session_protocol_error :: client where
  "session_protocol_error = the (handleHello K16 env_garbled session_awaiting)"

text \<open>
  Scenario 5: the remote enters the screen, clipboard 0 is grabbed locally, and the
  remote leaves twice.
\<close>

definition session_entered :: client where
  "session_entered = enter 10 20 0 session_active"

definition session_grabbed :: client where
  "session_grabbed = the (handleClipboardGrabbed env0 session_entered)"



text \<open>The same grab while the remote is not on the screen.\<close>

definition session_grabbed_inactive :: client where
  "session_grabbed_inactive = the (handleClipboardGrabbed env0 session_active)"

section \<open>Normal forms of the operations\<close>

lemmas prim_defs = emit_def adoptHandler_def removeHandler_def run_def sendEvent_def
  sendConnectionFailedEvent_def

lemma cleanupTimer_nf:
  "cleanupTimer s =
     s\<lparr>m_timer := None,
       handlers := (if m_timer s = None then handlers s
                    else (handlers s)((kTimer, TimerTarget) := None)),
       trace := trace s @ (if m_timer s = None then []
                           else [RemoveHandler kTimer TimerTarget, DeleteTimer])\<rparr>"
  by (cases "m_timer s") (simp_all add: cleanupTimer_def prim_defs)

lemma cleanupScreen_nf:
  "cleanupScreen s =
     s\<lparr>m_server := None, m_ready := (if m_server s = None then m_ready s else False),
       handlers := (if m_server s = None then handlers s
                    else (handlers s)((IScreen_shapeChanged, ScreenTarget) := None,
                                (IScreen_clipboardGrabbed, ScreenTarget) := None,
                                (inputReady, StreamTarget) := None)),
       trace := trace s @ (if m_server s = None then []
                else (if m_ready s then [ScreenDisable] else []) @
                [RemoveHandler IScreen_shapeChanged ScreenTarget,
                 RemoveHandler IScreen_clipboardGrabbed ScreenTarget,
                 RemoveHandler inputReady StreamTarget, DeleteServerProxy])\<rparr>"
  by (cases "m_server s") (simp_all add: cleanupScreen_def delete_CServerProxy_def prim_defs)

lemma cleanupConnecting_nf:
  "cleanupConnecting s =
     s\<lparr>handlers := (if m_stream s = None then handlers s
                    else (handlers s)((IDataTransfer_connected, StreamTarget) := None,
                                (IDataTransfer_connectionFailed, StreamTarget) := None)),
       trace := trace s @ (if m_stream s = None then []
                     else [RemoveHandler IDataTransfer_connected StreamTarget,
                           RemoveHandler IDataTransfer_connectionFailed StreamTarget])\<rparr>"
  by (cases "m_stream s") (simp_all add: cleanupConnecting_def prim_defs)

lemma delete_stream_nf:
  "delete_stream s =
     s\<lparr>m_stream := None,
       trace := trace s @ (case m_stream s of None \<Rightarrow> [] | Some st \<Rightarrow> [DeleteStream st])\<rparr>"
  by (cases "m_stream s") (simp_all add: delete_stream_def prim_defs)

lemma cleanupConnection_nf:
  "cleanupConnection s =
     s\<lparr>m_stream := None,
       handlers := (if m_stream s = None then handlers s
                    else (handlers s)((inputReady, StreamTarget) := None,
                                (outputError, StreamTarget) := None,
                                (inputShutdown, StreamTarget) := None,
                                (outputShutdown, StreamTarget) := None,
                                (ISocket_disconnected, StreamTarget) := None)),
       trace := trace s @ (case m_stream s of None \<Rightarrow> []
                     | Some st \<Rightarrow> [RemoveHandler inputReady StreamTarget,
                           RemoveHandler outputError StreamTarget,
                           RemoveHandler inputShutdown StreamTarget,
                           RemoveHandler outputShutdown StreamTarget,
                           RemoveHandler ISocket_disconnected StreamTarget,
                           DeleteStream st])\<rparr>"
  by (cases "m_stream s") (simp_all add: cleanupConnection_def delete_stream_def prim_defs)

lemmas ops_nf = run_def cleanupTimer_nf cleanupScreen_nf cleanupConnecting_nf delete_stream_nf
  cleanupConnection_nf sendEvent_def sendConnectionFailedEvent_def emit_def

section \<open>The states of the session\<close>

lemmas table_defs = base_handlers_def connection_handlers_def

lemma all_event_types: "et \<in> set all_event_types"
  by (cases et) (simp_all add: all_event_types_def)

lemma table_eqI:
  assumes "\<forall>et \<in> set all_event_types.
             f (et, StreamTarget) = g (et, StreamTarget) \<and>
             f (et, TimerTarget) = g (et, TimerTarget) \<and>
             f (et, ScreenTarget) = g (et, ScreenTarget)"
  shows "f = g"
proof
  fix k :: "event_type \<times> target"
  obtain et tg where k: "k = (et, tg)" by (cases k)
  from assms all_event_types [of et] show "f k = g k"
    unfolding k by (cases tg) blast+
qed

lemma in_phase_phase_of: "in_phase ph s \<Longrightarrow> phase_of s = ph"
  by (cases ph) (simp_all add: in_phase_def phase_of_def table_defs)

lemma in_phase_Idle:
  "in_phase Idle s \<longleftrightarrow>
     handlers s = base_handlers \<and> m_stream s = None \<and> m_timer s = None \<and> m_server s = None"
  by (simp add: in_phase_def)

lemma in_phase_Connecting:
  "in_phase Connecting s \<longleftrightarrow>
     handlers s = expected_handlers Connecting \<and> m_stream s \<noteq> None \<and> m_timer s \<noteq> None \<and>
     m_server s = None"
  by (simp add: in_phase_def)

lemma in_phase_AwaitingHello:
  "in_phase AwaitingHello s \<longleftrightarrow>
     handlers s = expected_handlers AwaitingHello \<and> m_stream s \<noteq> None \<and> m_timer s \<noteq> None \<and>
     m_server s = None"
  by (simp add: in_phase_def)

lemma in_phase_Active:
  "in_phase Active s \<longleftrightarrow>
     handlers s = expected_handlers Active \<and> m_stream s \<noteq> None \<and> m_timer s = None \<and>
     m_server s \<noteq> None"
  by (simp add: in_phase_def)

lemmas in_phase_simps = in_phase_Idle in_phase_Connecting in_phase_AwaitingHello in_phase_Active

lemma in_phase_cong:
  "handlers s' = handlers s \<Longrightarrow> m_stream s' = m_stream s \<Longrightarrow> m_timer s' = m_timer s \<Longrightarrow>
   m_server s' = m_server s \<Longrightarrow> in_phase ph s' = in_phase ph s"
  by (simp add: in_phase_def)

lemma in_phase_ctor: "in_phase Idle (CClient_ctor name address ff crypto own0 sent0 time0)"
  unfolding in_phase_Idle
  apply (intro conjI)
     apply (rule table_eqI)
     apply (simp add: CClient_ctor_def prim_defs all_event_types_def table_defs)
    apply (simp_all add: CClient_ctor_def prim_defs)
  done

lemma table_eqI2:
  assumes "\<And>et tg. f (et, tg) = g (et, tg)"
  shows "f = g"
  using assms by auto

lemma in_phase_IdleE:
  assumes "in_phase Idle s"
  obtains "handlers s = base_handlers" "m_stream s = None" "m_timer s = None" "m_server s = None"
  using assms by (simp add: in_phase_Idle)

lemma in_phase_ConnectingE:
  assumes "in_phase Connecting s"
  obtains st t where "handlers s = expected_handlers Connecting" "m_stream s = Some st"
    "m_timer s = Some t" "m_server s = None"
  using assms by (auto simp: in_phase_Connecting)

lemma in_phase_AwaitingHelloE:
  assumes "in_phase AwaitingHello s"
  obtains st t where "handlers s = expected_handlers AwaitingHello" "m_stream s = Some st"
    "m_timer s = Some t" "m_server s = None"
  using assms by (auto simp: in_phase_AwaitingHello)

lemma in_phase_ActiveE:
  assumes "in_phase Active s"
  obtains st p where "handlers s = expected_handlers Active" "m_stream s = Some st"
    "m_timer s = None" "m_server s = Some p"
  using assms by (auto simp: in_phase_Active)

lemma final_event_nf:
  "(case msg of Some m \<Rightarrow> sendConnectionFailedEvent m | None \<Rightarrow> sendEvent Disconnected) s =
     s\<lparr>trace := trace s @
          [AddEvent (case msg of Some m \<Rightarrow> ConnectionFailed m True | None \<Rightarrow> Disconnected)]\<rparr>"
  by (cases msg) (simp_all add: sendEvent_def sendConnectionFailedEvent_def emit_def)

lemma disconnect_nf:
  "disconnect msg s =
     run [\<lambda>s. s\<lparr>m_connectOnResume := False\<rparr>,
          cleanupTimer, cleanupScreen, cleanupConnecting, cleanupConnection,
          \<lambda>s. s\<lparr>trace := trace s @
            [AddEvent (case msg of Some m \<Rightarrow> ConnectionFailed m True | None \<Rightarrow> Disconnected)]\<rparr>] s"
  by (simp add: disconnect_def run_def final_event_nf)

lemma disconnect_ptrs:
  "m_stream (disconnect msg s) = None" "m_timer (disconnect msg s) = None"
  "m_server (disconnect msg s) = None"
  by (simp_all add: disconnect_nf ops_nf)

lemma in_phase_disconnect:
  assumes "in_phase ph s" shows "in_phase Idle (disconnect msg s)"
proof -
  have "handlers (disconnect msg s) = base_handlers"
  proof (cases ph)
    case Idle
    with assms show ?thesis
      by (simp add: in_phase_Idle disconnect_nf ops_nf)
  next
    case Connecting
    with assms have "in_phase Connecting s" by simp
    then show ?thesis
    proof (rule in_phase_ConnectingE)
      fix st t
      assume f: "handlers s = expected_handlers Connecting" "m_stream s = Some st"
        "m_timer s = Some t" "m_server s = None"
      show ?thesis
        apply (simp add: disconnect_nf ops_nf f)
        apply (rule table_eqI2)
        subgoal for et tg by (cases et; cases tg; simp add: table_defs)
        done
    qed
  next
    case AwaitingHello
    with assms have "in_phase AwaitingHello s" by simp
    then show ?thesis
    proof (rule in_phase_AwaitingHelloE)
      fix st t
      assume f: "handlers s = expected_handlers AwaitingHello" "m_stream s = Some st"
        "m_timer s = Some t" "m_server s = None"
      show ?thesis
        apply (simp add: disconnect_nf ops_nf f)
        apply (rule table_eqI2)
        subgoal for et tg by (cases et; cases tg; simp add: table_defs)
        done
    qed
  next
    case Active
    with assms have "in_phase Active s" by simp
    then show ?thesis
    proof (rule in_phase_ActiveE)
      fix st p
      assume f: "handlers s = expected_handlers Active" "m_stream s = Some st"
        "m_timer s = None" "m_server s = Some p"
      show ?thesis
        apply (simp add: disconnect_nf ops_nf f)
        apply (rule table_eqI2)
        subgoal for et tg by (cases et; cases tg; simp add: table_defs)
        done
    qed
  qed
  then show ?thesis by (simp add: in_phase_Idle disconnect_ptrs)
qed

lemma in_phase_emit: "in_phase ph (emit a s) = in_phase ph s"
  by (rule in_phase_cong) (simp_all add: emit_def)

lemma in_phase_connect_catch_idle:
  assumes "handlers s = base_handlers" "m_stream s = None" "m_timer s = None" "m_server s = None"
  shows "in_phase Idle (connect_catch what s)"
  using assms by (simp add: in_phase_Idle connect_catch_def ops_nf)

lemma in_phase_connect_catch_socket:
  assumes "handlers s = base_handlers" "m_stream s = Some st" "m_timer s = None" "m_server s = None"
  shows "in_phase Idle (connect_catch what s)"
proof -
  have "handlers (connect_catch what s) = base_handlers"
    apply (simp add: connect_catch_def ops_nf assms)
    apply (rule table_eqI2)
    subgoal for et tg by (cases et; cases tg; simp add: table_defs)
    done
  then show ?thesis
    by (simp add: in_phase_Idle) (simp add: connect_catch_def ops_nf assms)
qed

lemma in_phase_connect_catch_connecting:
  assumes "in_phase Connecting s"
  shows "in_phase Idle (connect_catch what s)"
  using assms
proof (rule in_phase_ConnectingE)
  fix st t
  assume f: "handlers s = expected_handlers Connecting" "m_stream s = Some st"
    "m_timer s = Some t" "m_server s = None"
  have "handlers (connect_catch what s) = base_handlers"
    apply (simp add: connect_catch_def ops_nf f)
    apply (rule table_eqI2)
    subgoal for et tg by (cases et; cases tg; simp add: table_defs)
    done
  then show ?thesis
    by (simp add: in_phase_Idle) (simp add: connect_catch_def ops_nf f)
qed

lemma wrap_packet_crypto_fields:
  "handlers (wrap_packet_crypto s) = handlers s"
  "m_timer (wrap_packet_crypto s) = m_timer s"
  "m_server (wrap_packet_crypto s) = m_server s"
  "trace (wrap_packet_crypto s) = trace s"
  "m_stream s = Some st \<Longrightarrow> \<exists>st'. m_stream (wrap_packet_crypto s) = Some st'"
  by (simp_all add: wrap_packet_crypto_def Let_def)

lemma in_phase_connect_start:
  assumes "handlers s = base_handlers" "m_stream s = Some st" "m_timer s = None"
    "m_server s = None" "connect_start e s = Some s'"
  shows "in_phase Idle s' \<or> in_phase Connecting s'"
proof -
  define s2 where
    "s2 = run [adoptHandler IDataTransfer_connected StreamTarget JConnected,
               adoptHandler IDataTransfer_connectionFailed StreamTarget JConnectionFailed,
               emit (NewOneShotTimer 15),
               adoptHandler kTimer TimerTarget JConnectTimeout,
               emit SocketConnect]
              (s\<lparr>m_timer := Some (OneShotTimer 15)\<rparr>)"
  have c: "in_phase Connecting s2"
    by (simp add: in_phase_Connecting s2_def prim_defs assms)
  have "s' = s2 \<or> (\<exists>what. s' = connect_catch what s2)"
    using assms(5)
    by (auto simp add: connect_start_def setupConnecting_def setupTimer_def s2_def prim_defs
        assms(1-4) split: option.splits)
  with c show ?thesis
    by (auto simp: in_phase_connect_catch_connecting)
qed

lemma in_phase_connect_build:
  assumes "in_phase Idle s" "connect_build e s = Some s'"
  shows "in_phase Idle s' \<or> in_phase Connecting s'"
  using assms(1)
proof (rule in_phase_IdleE)
  assume f: "handlers s = base_handlers" "m_stream s = None" "m_timer s = None" "m_server s = None"
  show ?thesis
  proof (cases "create_throws e")
    case (Some what)
    with assms(2) have "s' = connect_catch what (emit TransportCreate s)"
      by (simp add: connect_build_def)
    then show ?thesis
      by (simp add: in_phase_connect_catch_idle f emit_def)
  next
    case None
    define s1 where "s1 = (emit TransportCreate s)\<lparr>m_stream := Some Socket\<rparr>"
    have s1: "handlers s1 = base_handlers" "m_stream s1 = Some Socket" "m_timer s1 = None"
      "m_server s1 = None" "m_streamFilterFactory s1 = m_streamFilterFactory s"
      by (simp_all add: s1_def emit_def f)
    show ?thesis
    proof (cases "m_streamFilterFactory s")
      case False
      with None assms(2) have st: "connect_start e (wrap_packet_crypto s1) = Some s'"
        by (simp add: connect_build_def Let_def s1_def emit_def)
      obtain st' where "m_stream (wrap_packet_crypto s1) = Some st'"
        using wrap_packet_crypto_fields(5) [OF s1(2)] by blast
      then show ?thesis
        by (rule in_phase_connect_start [OF _ _ _ _ st, rotated])
           (simp_all add: wrap_packet_crypto_fields s1)
    next
      case True
      show ?thesis
      proof (cases "filter_throws e")
        case (Some what)
        with None True assms(2) have "s' = connect_catch what (emit FilterCreate s1)"
          by (simp add: connect_build_def Let_def s1_def emit_def)
        then show ?thesis
          by (simp add: in_phase_connect_catch_socket [where st = Socket] s1 emit_def)
      next
        case n: None
        define s2 where "s2 = (emit FilterCreate s1)\<lparr>m_stream := Some (StreamFilter Socket)\<rparr>"
        have s2: "handlers s2 = base_handlers" "m_stream s2 = Some (StreamFilter Socket)"
          "m_timer s2 = None" "m_server s2 = None"
          by (simp_all add: s2_def emit_def s1)
        from None True n assms(2) have st: "connect_start e (wrap_packet_crypto s2) = Some s'"
          by (simp add: connect_build_def Let_def s1_def s2_def emit_def)
        obtain st' where "m_stream (wrap_packet_crypto s2) = Some st'"
          using wrap_packet_crypto_fields(5) [OF s2(2)] by blast
        then show ?thesis
          by (rule in_phase_connect_start [OF _ _ _ _ st, rotated])
             (simp_all add: wrap_packet_crypto_fields s2)
      qed
    qed
  qed
qed

lemma in_phase_connect:
  assumes "in_phase ph s" "connect e s = Some s'"
  shows "in_phase ph s' \<or> in_phase Idle s' \<or> in_phase Connecting s'"
proof (cases "m_stream s = None")
  case False
  with assms show ?thesis by (simp add: connect_def)
next
  case True
  with assms(1) have idle: "in_phase Idle s"
    by (cases ph) (simp_all add: in_phase_def)
  show ?thesis
  proof (cases "m_suspended s")
    case s: True
    with True assms(2) have "s' = s\<lparr>m_connectOnResume := True\<rparr>"
      by (simp add: connect_def)
    with idle show ?thesis by (simp add: in_phase_def)
  next
    case ns: False
    have ie: "in_phase Idle (emit Resolve s)"
      using idle by (simp add: in_phase_emit)
    from idle have f: "handlers s = base_handlers" "m_timer s = None" "m_server s = None"
      by (simp_all add: in_phase_Idle)
    from True ns assms(2) consider
        what where "s' = connect_catch what (emit Resolve s)"
      | "connect_build e (emit Resolve s) = Some s'"
      | "connect_build e s = Some s'"
      by (auto simp: connect_def split: if_splits option.splits)
    then show ?thesis
    proof cases
      case 1
      then show ?thesis
        by (simp add: in_phase_connect_catch_idle f True emit_def)
    next
      case 2
      with ie show ?thesis using in_phase_connect_build by blast
    next
      case 3
      with idle show ?thesis using in_phase_connect_build by blast
    qed
  qed
qed

lemma handleConnectionFailed_catch: "handleConnectionFailed e s = connect_catch (info_what e) s"
  by (simp add: handleConnectionFailed_def connect_catch_def)

lemma handleDisconnected_eq: "handleDisconnected s = handleOutputError s"
  by (simp add: handleDisconnected_def handleOutputError_def)

lemma in_phase_handleConnectTimeout:
  assumes "in_phase ph s" "ph = Connecting \<or> ph = AwaitingHello"
  shows "in_phase Idle (handleConnectTimeout s)"
proof -
  have ptrs: "m_stream (handleConnectTimeout s) = None" "m_timer (handleConnectTimeout s) = None"
    "m_server (handleConnectTimeout s) = m_server s"
    by (simp_all add: handleConnectTimeout_def ops_nf)
  from assms consider "in_phase Connecting s" | "in_phase AwaitingHello s" by blast
  then have "handlers (handleConnectTimeout s) = base_handlers \<and> m_server s = None"
  proof cases
    case 1
    then show ?thesis
    proof (rule in_phase_ConnectingE)
      fix st t
      assume f: "handlers s = expected_handlers Connecting" "m_stream s = Some st"
        "m_timer s = Some t" "m_server s = None"
      show ?thesis
        apply (simp add: handleConnectTimeout_def ops_nf f)
        apply (rule table_eqI2)
        subgoal for et tg by (cases et; cases tg; simp add: table_defs)
        done
    qed
  next
    case 2
    then show ?thesis
    proof (rule in_phase_AwaitingHelloE)
      fix st t
      assume f: "handlers s = expected_handlers AwaitingHello" "m_stream s = Some st"
        "m_timer s = Some t" "m_server s = None"
      show ?thesis
        apply (simp add: handleConnectTimeout_def ops_nf f)
        apply (rule table_eqI2)
        subgoal for et tg by (cases et; cases tg; simp add: table_defs)
        done
    qed
  qed
  with ptrs show ?thesis by (simp add: in_phase_Idle)
qed

lemma in_phase_handleOutputError:
  assumes "in_phase ph s" "ph = AwaitingHello \<or> ph = Active"
  shows "in_phase Idle (handleOutputError s)"
proof -
  have ptrs: "m_stream (handleOutputError s) = None" "m_timer (handleOutputError s) = None"
    "m_server (handleOutputError s) = None"
    by (simp_all add: handleOutputError_def ops_nf)
  from assms consider "in_phase AwaitingHello s" | "in_phase Active s" by blast
  then have "handlers (handleOutputError s) = base_handlers"
  proof cases
    case 1
    then show ?thesis
    proof (rule in_phase_AwaitingHelloE)
      fix st t
      assume f: "handlers s = expected_handlers AwaitingHello" "m_stream s = Some st"
        "m_timer s = Some t" "m_server s = None"
      show ?thesis
        apply (simp add: handleOutputError_def ops_nf f)
        apply (rule table_eqI2)
        subgoal for et tg by (cases et; cases tg; simp add: table_defs)
        done
    qed
  next
    case 2
    then show ?thesis
    proof (rule in_phase_ActiveE)
      fix st p
      assume f: "handlers s = expected_handlers Active" "m_stream s = Some st"
        "m_timer s = None" "m_server s = Some p"
      show ?thesis
        apply (simp add: handleOutputError_def ops_nf f)
        apply (rule table_eqI2)
        subgoal for et tg by (cases et; cases tg; simp add: table_defs)
        done
    qed
  qed
  with ptrs show ?thesis by (simp add: in_phase_Idle)
qed

lemma fold_resetClipboard_fields:
  "handlers (fold resetClipboard cids s) = handlers s"
  "m_stream (fold resetClipboard cids s) = m_stream s"
  "m_timer (fold resetClipboard cids s) = m_timer s"
  "m_server (fold resetClipboard cids s) = m_server s"
  "trace (fold resetClipboard cids s) = trace s"
  "m_cryptoStream (fold resetClipboard cids s) = m_cryptoStream s"
  "m_crypto_mode (fold resetClipboard cids s) = m_crypto_mode s"
  "m_suspended (fold resetClipboard cids s) = m_suspended s"
  "m_connectOnResume (fold resetClipboard cids s) = m_connectOnResume s"
  by (induction cids arbitrary: s; simp add: resetClipboard_def)+

lemma in_phase_handleConnected:
  assumes "in_phase Connecting s" "handleConnected K s = Some s'"
  shows "in_phase AwaitingHello s'"
  using assms(1)
proof (rule in_phase_ConnectingE)
  fix st t
  assume f: "handlers s = expected_handlers Connecting" "m_stream s = Some st"
    "m_timer s = Some t" "m_server s = None"
  define s1 where
    "s1 = run [adoptHandler ISocket_disconnected StreamTarget JDisconnected,
               adoptHandler inputReady StreamTarget JHello,
               adoptHandler outputError StreamTarget JOutputError,
               adoptHandler inputShutdown StreamTarget JDisconnected,
               adoptHandler outputShutdown StreamTarget JDisconnected] (cleanupConnecting s)"
  from assms(2) have s': "s' = fold resetClipboard [0..<kClipboardEnd K] s1"
    by (simp add: handleConnected_def setupConnection_def s1_def cleanupConnecting_nf f)
  have "handlers s1 = expected_handlers AwaitingHello"
    apply (simp add: s1_def prim_defs cleanupConnecting_nf f)
    apply (rule table_eqI2)
    subgoal for et tg by (cases et; cases tg; simp add: table_defs)
    done
  moreover have "m_stream s1 = Some st" "m_timer s1 = Some t" "m_server s1 = None"
    by (simp_all add: s1_def prim_defs cleanupConnecting_nf f)
  ultimately show ?thesis
    by (simp add: in_phase_AwaitingHello s' fold_resetClipboard_fields)
qed

lemma in_phase_handleHello:
  assumes "in_phase AwaitingHello s" "handleHello K e s = Some s'"
  shows "in_phase Idle s' \<or> in_phase Active s'"
  using assms(1)
proof (rule in_phase_AwaitingHelloE)
  fix st t
  assume f: "handlers s = expected_handlers AwaitingHello" "m_stream s = Some st"
    "m_timer s = Some t" "m_server s = None"
  define bad where "bad msg = run [sendConnectionFailedEvent msg, cleanupTimer, cleanupConnection] s"
    for msg
  define good where
    "good = run [emit (WriteHelloBack (kProtocolMajorVersion K) (kProtocolMinorVersion K) (m_name s)),
                 \<lambda>s. s\<lparr>m_ready := False, m_server := Some (CServerProxy st)\<rparr>,
                 emit NewServerProxy,
                 adoptHandler inputReady StreamTarget JProxyHandleData,
                 adoptHandler IScreen_shapeChanged ScreenTarget JShapeChanged,
                 adoptHandler IScreen_clipboardGrabbed ScreenTarget JClipboardGrabbed,
                 cleanupTimer,
                 \<lambda>s. if stream_isReady e then sendEvent InputReady s else s] s"
  have "(\<exists>msg. s' = bad msg) \<or> s' = good"
    using assms(2)
    by (auto simp add: handleHello_def setupScreen_def new_CServerProxy_def bad_def good_def f
        run_def emit_def split: option.splits if_splits)
  moreover have "in_phase Idle (bad msg)" for msg
  proof -
    have "handlers (bad msg) = base_handlers"
      apply (simp add: bad_def ops_nf f)
      apply (rule table_eqI2)
      subgoal for et tg by (cases et; cases tg; simp add: table_defs)
      done
    then show ?thesis
      by (simp add: in_phase_Idle) (simp add: bad_def ops_nf f)
  qed
  moreover have "in_phase Active good"
  proof -
    have "handlers good = expected_handlers Active"
      apply (simp add: good_def ops_nf adoptHandler_def f)
      apply (rule table_eqI2)
      subgoal for et tg by (cases et; cases tg; simp add: table_defs)
      done
    then show ?thesis
      by (simp add: in_phase_Active) (simp add: good_def ops_nf adoptHandler_def f)
  qed
  ultimately show ?thesis by auto
qed

section \<open>Invariants of the reachable states\<close>

lemma same_session_refl: "same_session s s"
  by (simp add: same_session_def)

lemma same_session_trans: "same_session s s1 \<Longrightarrow> same_session s1 s2 \<Longrightarrow> same_session s s2"
  by (simp add: same_session_def)

lemma same_session_in_phase: "same_session s s' \<Longrightarrow> in_phase ph s' = in_phase ph s"
  by (simp add: same_session_def in_phase_def)

lemma same_session_side_inv: "same_session s s' \<Longrightarrow> side_inv s' = side_inv s"
  by (simp add: same_session_def side_inv_def)

lemma sendClipboard_same: "sendClipboard e cid s = Some s' \<Longrightarrow> same_session s s'"
  by (auto simp add: sendClipboard_def Let_def run_def emit_def same_session_def
      split: if_splits)

lemma sendOwned_same: "sendOwned e cids s = Some s' \<Longrightarrow> same_session s s'"
proof (induction cids arbitrary: s)
  case Nil
  then show ?case by (simp add: same_session_refl)
next
  case (Cons cid cids)
  show ?case
  proof (cases "m_ownClipboard s cid")
    case False
    with Cons show ?thesis by simp
  next
    case True
    with Cons.prems obtain s1 where s1: "sendClipboard e cid s = Some s1"
      and r: "sendOwned e cids s1 = Some s'"
      by (auto split: option.splits)
    from sendClipboard_same [OF s1] Cons.IH [OF r] show ?thesis
      by (rule same_session_trans)
  qed
qed

lemma leave_same: "leave K e s = Some s' \<Longrightarrow> same_session s s'"
proof -
  assume a: "leave K e s = Some s'"
  have "same_session s (run [emit ScreenLeave, \<lambda>s. s\<lparr>m_active := False\<rparr>] s)"
    by (simp add: same_session_def run_def emit_def)
  moreover from a have "same_session (run [emit ScreenLeave, \<lambda>s. s\<lparr>m_active := False\<rparr>] s) s'"
    unfolding leave_def by (rule sendOwned_same)
  ultimately show ?thesis by (rule same_session_trans)
qed

lemma call_method_same: "call_method K e c s = Some s' \<Longrightarrow> same_session s s'"
proof (cases c)
  case PLeave
  assume "call_method K e c s = Some s'"
  with PLeave show ?thesis by (simp add: leave_same)
next
  case (PSetDecryptIv iv)
  assume "call_method K e c s = Some s'"
  with PSetDecryptIv show ?thesis
    by (auto simp add: setDecryptIv_def emit_def same_session_def split: option.splits if_splits)
qed (auto simp add: handshakeComplete_def enter_def setClipboard_def grabClipboard_def
      run_def emit_def sendEvent_def same_session_def)

lemma handleClipboardGrabbed_same: "handleClipboardGrabbed e s = Some s' \<Longrightarrow> same_session s s'"
proof -
  assume a: "handleClipboardGrabbed e s = Some s'"
  define s2 where
    "s2 = (emit (OnGrabClipboard (info_id e)) s)
            \<lparr>m_ownClipboard := (m_ownClipboard s)(info_id e := True),
             m_sentClipboard := (m_sentClipboard s)(info_id e := False),
             m_timeClipboard := (m_timeClipboard s)(info_id e := 0)\<rparr>"
  have 1: "same_session s s2"
    by (simp add: s2_def emit_def same_session_def)
  from a have "s' = s2 \<or> sendClipboard e (info_id e) s2 = Some s'"
    by (auto simp add: handleClipboardGrabbed_def Let_def s2_def emit_def split: if_splits)
  then show ?thesis
    using 1 sendClipboard_same same_session_trans by blast
qed

lemma quiet_handlers_same:
  "handleShapeChanged s = Some s' \<Longrightarrow> same_session s s'"
  "handleGameDeviceTimingResp s = Some s' \<Longrightarrow> same_session s s'"
  "handleGameDeviceFeedback s = Some s' \<Longrightarrow> same_session s s'"
  by (auto simp add: handleShapeChanged_def handleGameDeviceTimingResp_def
      handleGameDeviceFeedback_def emit_def same_session_def split: if_splits)

text \<open>Which jobs can be registered in which state.\<close>

lemma expected_handlers_jobs:
  assumes "expected_handlers ph (et, tg) = Some j"
  shows "j \<in> {JSuspend, JResume, JGameDeviceTimingResp, JGameDeviceFeedback} \<or>
         ph = Connecting \<and> j \<in> {JConnected, JConnectionFailed, JConnectTimeout} \<or>
         ph = AwaitingHello \<and> j \<in> {JHello, JOutputError, JDisconnected, JConnectTimeout} \<or>
         ph = Active \<and> j \<in> {JProxyHandleData, JOutputError, JDisconnected, JShapeChanged,
                               JClipboardGrabbed}"
  using assms
  by (cases ph; cases et; cases tg; simp add: table_defs)

lemma in_phase_handleSuspend: "in_phase ph s \<Longrightarrow> in_phase Idle (handleSuspend s)"
proof -
  assume "in_phase ph s"
  then have "in_phase ph (s\<lparr>m_suspended := True\<rparr>)"
    by (simp add: in_phase_def)
  then have "in_phase Idle (disconnect None (s\<lparr>m_suspended := True\<rparr>))"
    by (rule in_phase_disconnect)
  then show ?thesis
    by (simp add: handleSuspend_def Let_def in_phase_def)
qed

lemma in_phase_handleResume:
  assumes "in_phase ph s" "handleResume e s = Some s'"
  shows "in_phase ph s' \<or> in_phase Idle s' \<or> in_phase Connecting s'"
proof (cases "m_connectOnResume s")
  case False
  with assms show ?thesis
    by (auto simp add: handleResume_def Let_def in_phase_def)
next
  case True
  with assms(2) have c: "connect e (s\<lparr>m_suspended := False, m_connectOnResume := False\<rparr>) = Some s'"
    by (simp add: handleResume_def Let_def)
  from assms(1) have "in_phase ph (s\<lparr>m_suspended := False, m_connectOnResume := False\<rparr>)"
    by (simp add: in_phase_def)
  then show ?thesis using c by (rule in_phase_connect)
qed

lemma in_phase_run_job:
  assumes "in_phase ph s" "handlers s (et, tg) = Some j" "run_job K e j s = Some s'"
  shows "\<exists>ph'. in_phase ph' s'"
proof -
  from assms(1,2) have ex: "expected_handlers ph (et, tg) = Some j"
    by (simp add: in_phase_def)
  show ?thesis
  proof (cases j)
    case JConnected
    with expected_handlers_jobs [OF ex] have "ph = Connecting" by simp
    with assms JConnected show ?thesis using in_phase_handleConnected by auto
  next
    case JConnectionFailed
    with expected_handlers_jobs [OF ex] have "ph = Connecting" by simp
    with assms JConnectionFailed show ?thesis
      using in_phase_connect_catch_connecting by (auto simp add: handleConnectionFailed_catch)
  next
    case JConnectTimeout
    with expected_handlers_jobs [OF ex] have "ph = Connecting \<or> ph = AwaitingHello" by simp
    with assms JConnectTimeout show ?thesis using in_phase_handleConnectTimeout by auto
  next
    case JHello
    with expected_handlers_jobs [OF ex] have "ph = AwaitingHello" by simp
    with assms JHello show ?thesis using in_phase_handleHello by fastforce
  next
    case JOutputError
    with expected_handlers_jobs [OF ex] have "ph = AwaitingHello \<or> ph = Active" by simp
    with assms JOutputError show ?thesis using in_phase_handleOutputError by auto
  next
    case JDisconnected
    with expected_handlers_jobs [OF ex] have "ph = AwaitingHello \<or> ph = Active" by simp
    with assms JDisconnected show ?thesis
      using in_phase_handleOutputError by (auto simp add: handleDisconnected_eq)
  next
    case JShapeChanged
    with assms(3) have "same_session s s'" by (simp add: quiet_handlers_same(1))
    with assms(1) show ?thesis using same_session_in_phase by blast
  next
    case JClipboardGrabbed
    with assms(3) have "same_session s s'" by (simp add: handleClipboardGrabbed_same)
    with assms(1) show ?thesis using same_session_in_phase by blast
  next
    case JSuspend
    with assms show ?thesis using in_phase_handleSuspend by auto
  next
    case JResume
    with assms show ?thesis using in_phase_handleResume by fastforce
  next
    case JGameDeviceTimingResp
    with assms(3) have "same_session s s'" by (simp add: quiet_handlers_same(2))
    with assms(1) show ?thesis using same_session_in_phase by blast
  next
    case JGameDeviceFeedback
    with assms(3) have "same_session s s'" by (simp add: quiet_handlers_same(3))
    with assms(1) show ?thesis using same_session_in_phase by blast
  next
    case JProxyHandleData
    with assms show ?thesis by auto
  qed
qed

lemma in_phase_step:
  assumes "in_phase ph s" "step K e c s = Some s'"
  shows "\<exists>ph'. in_phase ph' s'"
proof (cases c)
  case CConnect
  with assms show ?thesis using in_phase_connect by fastforce
next
  case (CDisconnect msg)
  with assms show ?thesis using in_phase_disconnect by auto
next
  case (CDispatch et tg)
  show ?thesis
  proof (cases "handlers s (et, tg)")
    case None
    with assms CDispatch show ?thesis by auto
  next
    case (Some j)
    with assms CDispatch have "run_job K e j s = Some s'" by simp
    with assms(1) Some show ?thesis by (rule in_phase_run_job)
  qed
next
  case (CProxy pc)
  with assms(2) have "call_method K e pc s = Some s'"
    by (simp split: if_splits)
  then have "same_session s s'" by (rule call_method_same)
  with assms(1) show ?thesis using same_session_in_phase by blast
qed

lemma reachable_in_phase: "reachable K s \<Longrightarrow> \<exists>ph. in_phase ph s"
proof (induction rule: reachable.induct)
  case (r_ctor name address filterFactory crypto own0 sent0 time0)
  show ?case using in_phase_ctor by blast
next
  case (r_step s e c s')
  then show ?case using in_phase_step by blast
qed

lemma steps_reachable: "reachable K s \<Longrightarrow> steps K cs s = Some s' \<Longrightarrow> reachable K s'"
proof (induction cs arbitrary: s)
  case Nil
  then show ?case by simp
next
  case (Cons ec cs)
  obtain e c where ec: "ec = (e, c)" by (cases ec)
  with Cons.prems obtain s1 where s1: "step K e c s = Some s1" and r: "steps K cs s1 = Some s'"
    by (auto split: option.splits)
  from Cons.prems(1) s1 have "reachable K s1" by (rule r_step)
  then show ?case using r by (rule Cons.IH)
qed

lemmas setup_defs = setupConnecting_def setupConnection_def setupScreen_def setupTimer_def
  new_CServerProxy_def

lemma side_inv_ctor: "side_inv (CClient_ctor name address ff crypto own0 sent0 time0)"
  by (simp add: side_inv_def CClient_ctor_def prim_defs)

lemma side_inv_connect_catch: "side_inv s \<Longrightarrow> side_inv (connect_catch what s)"
  by (simp add: side_inv_def connect_catch_def ops_nf split: option.splits)

lemma side_inv_disconnect: "side_inv s \<Longrightarrow> side_inv (disconnect msg s)"
  by (cases msg) (simp_all add: side_inv_def disconnect_nf ops_nf split: option.splits)

lemma side_inv_connect_start:
  assumes "side_inv s" "connect_start e s = Some s'"
  shows "side_inv s'"
proof -
  define s2 where
    "s2 = run [adoptHandler IDataTransfer_connected StreamTarget JConnected,
               adoptHandler IDataTransfer_connectionFailed StreamTarget JConnectionFailed,
               emit (NewOneShotTimer 15),
               adoptHandler kTimer TimerTarget JConnectTimeout,
               emit SocketConnect]
              (s\<lparr>m_timer := Some (OneShotTimer 15)\<rparr>)"
  have c: "side_inv s2"
    using assms(1) by (simp add: side_inv_def s2_def prim_defs)
  have "s' = s2 \<or> (\<exists>what. s' = connect_catch what s2)"
    using assms(2)
    by (auto simp add: connect_start_def setupConnecting_def setupTimer_def s2_def prim_defs
        split: option.splits if_splits)
  with c show ?thesis
    by (auto simp: side_inv_connect_catch)
qed

lemma side_inv_wrap: "side_inv s \<Longrightarrow> side_inv (wrap_packet_crypto s)"
  by (simp add: side_inv_def wrap_packet_crypto_def Let_def)

lemma side_inv_connect_build:
  assumes "side_inv s" "connect_build e s = Some s'"
  shows "side_inv s'"
proof -
  have a: "side_inv (emit TransportCreate s)"
    using assms(1) by (simp add: side_inv_def emit_def)
  have b: "side_inv ((emit TransportCreate s)\<lparr>m_stream := Some Socket\<rparr>)"
    using assms(1) by (simp add: side_inv_def emit_def)
  have c: "side_inv (emit FilterCreate ((emit TransportCreate s)\<lparr>m_stream := Some Socket\<rparr>))"
    using assms(1) by (simp add: side_inv_def emit_def)
  have d: "side_inv ((emit FilterCreate ((emit TransportCreate s)\<lparr>m_stream := Some Socket\<rparr>))
                       \<lparr>m_stream := Some (StreamFilter Socket)\<rparr>)"
    using assms(1) by (simp add: side_inv_def emit_def)
  from assms(2) consider
      what where "s' = connect_catch what (emit TransportCreate s)"
    | what where
        "s' = connect_catch what
                (emit FilterCreate ((emit TransportCreate s)\<lparr>m_stream := Some Socket\<rparr>))"
    | "connect_start e (wrap_packet_crypto
         ((emit FilterCreate ((emit TransportCreate s)\<lparr>m_stream := Some Socket\<rparr>))
            \<lparr>m_stream := Some (StreamFilter Socket)\<rparr>)) = Some s'"
    | "connect_start e (wrap_packet_crypto ((emit TransportCreate s)\<lparr>m_stream := Some Socket\<rparr>))
         = Some s'"
    by (auto simp add: connect_build_def Let_def split: option.splits if_splits)
  then show ?thesis
  proof cases
    case 1
    with a show ?thesis by (simp add: side_inv_connect_catch)
  next
    case 2
    with c show ?thesis by (simp add: side_inv_connect_catch)
  next
    case 3
    from side_inv_wrap [OF d] 3 show ?thesis by (rule side_inv_connect_start)
  next
    case 4
    from side_inv_wrap [OF b] 4 show ?thesis by (rule side_inv_connect_start)
  qed
qed

lemma side_inv_connect:
  assumes "side_inv s" "connect e s = Some s'"
  shows "side_inv s'"
proof (cases "m_stream s = None")
  case False
  with assms show ?thesis by (simp add: connect_def)
next
  case True
  show ?thesis
  proof (cases "m_suspended s")
    case s: True
    with True assms(2) have "s' = s\<lparr>m_connectOnResume := True\<rparr>"
      by (simp add: connect_def)
    with assms(1) show ?thesis by (simp add: side_inv_def)
  next
    case ns: False
    have r: "side_inv (emit Resolve s)"
      using assms(1) by (simp add: side_inv_def emit_def)
    from True ns assms(2) consider
        what where "s' = connect_catch what (emit Resolve s)"
      | "connect_build e (emit Resolve s) = Some s'"
      | "connect_build e s = Some s'"
      by (auto simp: connect_def split: if_splits option.splits)
    then show ?thesis
    proof cases
      case 1
      with r show ?thesis by (simp add: side_inv_connect_catch)
    next
      case 2
      with r show ?thesis by (rule side_inv_connect_build)
    next
      case 3
      with assms(1) show ?thesis by (rule side_inv_connect_build)
    qed
  qed
qed

lemma side_inv_handleConnected:
  assumes "side_inv s" "handleConnected K s = Some s'"
  shows "side_inv s'"
proof -
  from assms(2) obtain s1 where s1: "setupConnection (cleanupConnecting s) = Some s1"
    and s': "s' = fold resetClipboard [0..<kClipboardEnd K] s1"
    by (auto simp add: handleConnected_def split: bind_splits)
  from s1 assms(1) have "side_inv s1"
    by (auto simp add: setupConnection_def side_inv_def prim_defs cleanupConnecting_nf
        split: if_splits)
  then show ?thesis
    by (simp add: s' side_inv_def fold_resetClipboard_fields)
qed

lemma side_inv_simple_handlers:
  assumes "side_inv s"
  shows "side_inv (handleConnectionFailed e s)" "side_inv (handleConnectTimeout s)"
    "side_inv (handleOutputError s)" "side_inv (handleDisconnected s)"
    "side_inv (handleSuspend s)"
  using assms
  by (simp_all add: side_inv_def handleConnectionFailed_def handleConnectTimeout_def
      handleOutputError_def handleDisconnected_def handleSuspend_def Let_def disconnect_nf
      ops_nf split: option.splits)

lemma side_inv_handleHello:
  assumes "side_inv s" "handleHello K e s = Some s'"
  shows "side_inv s'"
proof -
  define bad where "bad msg = run [sendConnectionFailedEvent msg, cleanupTimer, cleanupConnection] s"
    for msg
  have b: "side_inv (bad msg)" for msg
    using assms(1) by (simp add: bad_def side_inv_def ops_nf split: option.splits)
  from assms(2) consider msg where "s' = bad msg"
    | s1 where "setupScreen (emit (WriteHelloBack (kProtocolMajorVersion K)
                  (kProtocolMinorVersion K) (m_name s)) s) = Some s1"
        "s' = run [cleanupTimer, \<lambda>s. if stream_isReady e then sendEvent InputReady s else s] s1"
    by (auto simp add: handleHello_def bad_def split: option.splits if_splits bind_splits)
  then show ?thesis
  proof cases
    case 1
    with b show ?thesis by simp
  next
    case 2
    from 2(1) assms(1) have "side_inv s1"
      by (auto simp add: setupScreen_def new_CServerProxy_def side_inv_def prim_defs
          split: if_splits option.splits bind_splits)
    then show ?thesis
      by (simp add: 2(2) side_inv_def ops_nf)
  qed
qed

lemma side_inv_handleResume:
  assumes "side_inv s" "handleResume e s = Some s'"
  shows "side_inv s'"
proof (cases "m_connectOnResume s")
  case False
  with assms(2) have "s' = s\<lparr>m_suspended := False\<rparr>"
    by (simp add: handleResume_def Let_def)
  with assms(1) show ?thesis by (simp add: side_inv_def)
next
  case True
  with assms(2) have c: "connect e (s\<lparr>m_suspended := False, m_connectOnResume := False\<rparr>) = Some s'"
    by (simp add: handleResume_def Let_def)
  from assms(1) have "side_inv (s\<lparr>m_suspended := False, m_connectOnResume := False\<rparr>)"
    by (simp add: side_inv_def)
  then show ?thesis using c by (rule side_inv_connect)
qed

lemma side_inv_run_job:
  assumes "side_inv s" "run_job K e j s = Some s'"
  shows "side_inv s'"
proof (cases j)
  case JConnected
  with assms show ?thesis using side_inv_handleConnected by auto
next
  case JHello
  with assms show ?thesis using side_inv_handleHello by auto
next
  case JResume
  with assms show ?thesis using side_inv_handleResume by auto
next
  case JShapeChanged
  with assms(2) have "same_session s s'" by (simp add: quiet_handlers_same)
  with assms(1) show ?thesis by (simp add: same_session_side_inv)
next
  case JClipboardGrabbed
  with assms(2) have "same_session s s'" by (simp add: handleClipboardGrabbed_same)
  with assms(1) show ?thesis by (simp add: same_session_side_inv)
next
  case JGameDeviceTimingResp
  with assms(2) have "same_session s s'" by (simp add: quiet_handlers_same)
  with assms(1) show ?thesis by (simp add: same_session_side_inv)
next
  case JGameDeviceFeedback
  with assms(2) have "same_session s s'" by (simp add: quiet_handlers_same)
  with assms(1) show ?thesis by (simp add: same_session_side_inv)
qed (use assms side_inv_simple_handlers in auto)

lemma side_inv_step:
  assumes "side_inv s" "step K e c s = Some s'"
  shows "side_inv s'"
proof (cases c)
  case CConnect
  with assms show ?thesis using side_inv_connect by auto
next
  case (CDisconnect msg)
  with assms show ?thesis using side_inv_disconnect by auto
next
  case (CDispatch et tg)
  with assms show ?thesis
    using side_inv_run_job by (auto split: option.splits)
next
  case (CProxy pc)
  with assms(2) have "call_method K e pc s = Some s'"
    by (simp split: if_splits)
  then have "same_session s s'" by (rule call_method_same)
  with assms(1) show ?thesis by (simp add: same_session_side_inv)
qed

lemma reachable_side_inv: "reachable K s \<Longrightarrow> side_inv s"
proof (induction rule: reachable.induct)
  case (r_ctor name address filterFactory crypto own0 sent0 time0)
  show ?case by (rule side_inv_ctor)
next
  case (r_step s e c s')
  then show ?case using side_inv_step by blast
qed

section \<open>What connecting and tearing down leave alone\<close>

lemma keeps_settings_refl: "keeps_settings s s"
  by (simp add: keeps_settings_def)

lemma keeps_settings_trans:
  "keeps_settings s s1 \<Longrightarrow> keeps_settings s1 s2 \<Longrightarrow> keeps_settings s s2"
  by (simp add: keeps_settings_def)

lemma keeps_settings_emit: "keeps_settings s (emit a s)"
  by (simp add: keeps_settings_def emit_def)

lemma keeps_settings_connect_catch: "keeps_settings s (connect_catch what s)"
  by (simp add: keeps_settings_def connect_catch_def ops_nf)

lemma socket_connects_connect_catch: "socket_connects (connect_catch what s) = socket_connects s"
  by (simp add: socket_connects_def connect_catch_def ops_nf split: option.splits)

lemma connect_start_effect:
  assumes "connect_start e s = Some s'"
  shows "keeps_settings s s' \<and> socket_connects s' = socket_connects s + 1"
proof -
  define s2 where
    "s2 = run [adoptHandler IDataTransfer_connected StreamTarget JConnected,
               adoptHandler IDataTransfer_connectionFailed StreamTarget JConnectionFailed,
               emit (NewOneShotTimer 15),
               adoptHandler kTimer TimerTarget JConnectTimeout,
               emit SocketConnect]
              (s\<lparr>m_timer := Some (OneShotTimer 15)\<rparr>)"
  have c: "keeps_settings s s2" "socket_connects s2 = socket_connects s + 1"
    by (simp_all add: keeps_settings_def socket_connects_def s2_def prim_defs)
  have "s' = s2 \<or> (\<exists>what. s' = connect_catch what s2)"
    using assms
    by (auto simp add: connect_start_def setupConnecting_def setupTimer_def s2_def prim_defs
        split: option.splits if_splits)
  then show ?thesis
  proof
    assume "s' = s2"
    with c show ?thesis by simp
  next
    assume "\<exists>what. s' = connect_catch what s2"
    then obtain what where w: "s' = connect_catch what s2" ..
    have "keeps_settings s s'"
      unfolding w using c(1) keeps_settings_connect_catch by (rule keeps_settings_trans)
    then show ?thesis
      by (simp add: w socket_connects_connect_catch c(2))
  qed
qed

lemma wrap_packet_crypto_effect:
  "keeps_settings s (wrap_packet_crypto s)"
  "socket_connects (wrap_packet_crypto s) = socket_connects s"
  by (simp_all add: keeps_settings_def socket_connects_def wrap_packet_crypto_def Let_def)

lemma connect_build_effect:
  assumes "connect_build e s = Some s'"
  shows "keeps_settings s s' \<and> socket_connects s' \<le> socket_connects s + 1"
proof -
  define s1 where "s1 = (emit TransportCreate s)\<lparr>m_stream := Some Socket\<rparr>"
  define s2 where "s2 = (emit FilterCreate s1)\<lparr>m_stream := Some (StreamFilter Socket)\<rparr>"
  have k: "keeps_settings s (emit TransportCreate s)" "keeps_settings s (emit FilterCreate s1)"
    "keeps_settings s (wrap_packet_crypto s1)" "keeps_settings s (wrap_packet_crypto s2)"
    by (simp_all add: keeps_settings_def s1_def s2_def emit_def wrap_packet_crypto_def Let_def)
  have n: "socket_connects (emit TransportCreate s) = socket_connects s"
    "socket_connects (emit FilterCreate s1) = socket_connects s"
    "socket_connects (wrap_packet_crypto s1) = socket_connects s"
    "socket_connects (wrap_packet_crypto s2) = socket_connects s"
    by (simp_all add: socket_connects_def s1_def s2_def emit_def wrap_packet_crypto_def Let_def)
  from assms consider
      what where "s' = connect_catch what (emit TransportCreate s)"
    | what where "s' = connect_catch what (emit FilterCreate s1)"
    | "connect_start e (wrap_packet_crypto s2) = Some s'"
    | "connect_start e (wrap_packet_crypto s1) = Some s'"
    by (auto simp add: connect_build_def Let_def s1_def s2_def split: option.splits if_splits)
  then show ?thesis
  proof cases
    case 1
    have "keeps_settings s s'"
      unfolding 1 using k(1) keeps_settings_connect_catch by (rule keeps_settings_trans)
    then show ?thesis by (simp add: 1 socket_connects_connect_catch n)
  next
    case 2
    have "keeps_settings s s'"
      unfolding 2 using k(2) keeps_settings_connect_catch by (rule keeps_settings_trans)
    then show ?thesis by (simp add: 2 socket_connects_connect_catch n)
  next
    case 3
    from connect_start_effect [OF 3] k(4) n(4) show ?thesis
      using keeps_settings_trans by auto
  next
    case 4
    from connect_start_effect [OF 4] k(3) n(3) show ?thesis
      using keeps_settings_trans by auto
  qed
qed

lemma connect_effect:
  assumes "connect e s = Some s'" "m_stream s = None" "\<not> m_suspended s"
  shows "keeps_settings s s' \<and> socket_connects s' \<le> socket_connects s + 1"
proof -
  have r: "keeps_settings s (emit Resolve s)" "socket_connects (emit Resolve s) = socket_connects s"
    by (simp_all add: keeps_settings_def socket_connects_def emit_def)
  from assms consider
      what where "s' = connect_catch what (emit Resolve s)"
    | "connect_build e (emit Resolve s) = Some s'"
    | "connect_build e s = Some s'"
    by (auto simp: connect_def split: if_splits option.splits)
  then show ?thesis
  proof cases
    case 1
    have "keeps_settings s s'"
      unfolding 1 using r(1) keeps_settings_connect_catch by (rule keeps_settings_trans)
    then show ?thesis by (simp add: 1 socket_connects_connect_catch r)
  next
    case 2
    from connect_build_effect [OF 2] r show ?thesis
      using keeps_settings_trans by auto
  next
    case 3
    then show ?thesis by (rule connect_build_effect)
  qed
qed

lemma teardown_keeps_settings:
  "keeps_settings s (handleConnectionFailed e s)" "keeps_settings s (handleConnectTimeout s)"
  "keeps_settings s (handleOutputError s)" "keeps_settings s (handleDisconnected s)"
  by (simp_all add: keeps_settings_def handleConnectionFailed_def handleConnectTimeout_def
      handleOutputError_def handleDisconnected_def ops_nf)

lemma handleHello_keeps_settings:
  assumes "handleHello K e s = Some s'"
  shows "keeps_settings s s'"
proof -
  define bad where "bad msg = run [sendConnectionFailedEvent msg, cleanupTimer, cleanupConnection] s"
    for msg
  have b: "keeps_settings s (bad msg)" for msg
    by (simp add: bad_def keeps_settings_def ops_nf)
  from assms consider msg where "s' = bad msg"
    | s1 where "setupScreen (emit (WriteHelloBack (kProtocolMajorVersion K)
                  (kProtocolMinorVersion K) (m_name s)) s) = Some s1"
        "s' = run [cleanupTimer, \<lambda>s. if stream_isReady e then sendEvent InputReady s else s] s1"
    by (auto simp add: handleHello_def bad_def split: option.splits if_splits bind_splits)
  then show ?thesis
  proof cases
    case 1
    with b show ?thesis by simp
  next
    case 2
    from 2(1) have "keeps_settings s s1"
      by (auto simp add: setupScreen_def new_CServerProxy_def keeps_settings_def prim_defs
          split: if_splits option.splits bind_splits)
    moreover have "keeps_settings s1 s'"
      by (simp add: 2(2) keeps_settings_def ops_nf)
    ultimately show ?thesis by (rule keeps_settings_trans)
  qed
qed

lemma handleConnected_flags:
  assumes "handleConnected K s = Some s'"
  shows "m_suspended s' = m_suspended s" "m_connectOnResume s' = m_connectOnResume s"
proof -
  from assms obtain s1 where s1: "setupConnection (cleanupConnecting s) = Some s1"
    and s': "s' = fold resetClipboard [0..<kClipboardEnd K] s1"
    by (auto simp add: handleConnected_def split: bind_splits)
  from s1 have "m_suspended s1 = m_suspended s \<and> m_connectOnResume s1 = m_connectOnResume s"
    by (auto simp add: setupConnection_def prim_defs cleanupConnecting_nf split: if_splits)
  then show "m_suspended s' = m_suspended s" "m_connectOnResume s' = m_connectOnResume s"
    by (simp_all add: s' fold_resetClipboard_fields)
qed

lemma disconnect_fields:
  "m_connectOnResume (disconnect msg s) = False"
  "m_suspended (disconnect msg s) = m_suspended s"
  "m_stream (disconnect msg s) = None"
  "m_timer (disconnect msg s) = None"
  "m_server (disconnect msg s) = None"
  by (simp_all add: disconnect_nf ops_nf)

lemma handleResume_flags:
  assumes "handleResume e s = Some s'"
  shows "\<not> m_suspended s' \<and> \<not> m_connectOnResume s'"
proof (cases "m_connectOnResume s")
  case False
  with assms show ?thesis by (auto simp add: handleResume_def Let_def)
next
  case True
  define s1 where "s1 = s\<lparr>m_suspended := False, m_connectOnResume := False\<rparr>"
  from True assms have c: "connect e s1 = Some s'"
    by (simp add: handleResume_def Let_def s1_def)
  show ?thesis
  proof (cases "m_stream s = None")
    case False
    with c have "s' = s1" by (simp add: connect_def s1_def)
    then show ?thesis by (simp add: s1_def)
  next
    case n: True
    then have "m_stream s1 = None" "\<not> m_suspended s1" by (simp_all add: s1_def)
    from connect_effect [OF c this] show ?thesis
      by (simp add: keeps_settings_def s1_def)
  qed
qed

section \<open>The concrete session\<close>

lemmas example_defs = K16_def env0_def client0_def CClient_ctor_def to_awaiting_def to_active_def

lemmas eval_defs = example_defs connect_def connect_build_def connect_start_def
  wrap_packet_crypto_def setup_defs prim_defs handleConnected_def handleHello_def
  handshakeComplete_def cleanupConnecting_nf cleanupTimer_nf resetClipboard_def upt_rec

lemma session_connecting_steps: "steps K16 [(env0, CConnect)] client0 = Some session_connecting"
proof -
  have "steps K16 [(env0, CConnect)] client0 \<noteq> None"
    by (simp add: eval_defs)
  then show ?thesis by (simp add: session_connecting_def)
qed

lemma session_awaiting_steps: "steps K16 to_awaiting client0 = Some session_awaiting"
proof -
  have "steps K16 to_awaiting client0 \<noteq> None"
    by (simp add: eval_defs)
  then show ?thesis by (simp add: session_awaiting_def)
qed

lemma session_active_steps: "steps K16 to_active client0 = Some session_active"
proof -
  have "steps K16 to_active client0 \<noteq> None"
    by (simp add: eval_defs)
  then show ?thesis by (simp add: session_active_def)
qed

lemma reachable_client0: "reachable K16 client0"
  unfolding client0_def by (rule r_ctor)

lemma reachable_session_awaiting: "reachable K16 session_awaiting"
  using reachable_client0 session_awaiting_steps by (rule steps_reachable)

lemma reachable_session_active: "reachable K16 session_active"
  using reachable_client0 session_active_steps by (rule steps_reachable)

lemma client0_fields:
  "m_stream client0 = None" "m_timer client0 = None" "m_server client0 = None"
  "m_suspended client0 = False" "m_connectOnResume client0 = False"
  "m_cryptoStream client0 = None" "m_crypto_mode client0 = kDisabled"
  by (simp_all add: eval_defs)

lemma session_connecting_fields:
  "m_stream session_connecting = Some (CPacketStreamFilter Socket)"
  "m_timer session_connecting = Some (OneShotTimer 15)"
  "m_server session_connecting = None"
  "socket_connects session_connecting = 1"
  by (simp_all add: session_connecting_def socket_connects_def eval_defs)

lemma session_awaiting_fields:
  "m_stream session_awaiting = Some (CPacketStreamFilter Socket)"
  "m_timer session_awaiting = Some (OneShotTimer 15)"
  "m_server session_awaiting = None"
  "m_suspended session_awaiting = False"
  "m_cryptoStream session_awaiting = None"
  "m_name session_awaiting = ''myclient''"
  "handlers session_awaiting (IDataTransfer_connected, StreamTarget) = None"
  by (simp_all add: session_awaiting_def eval_defs)

lemma session_active_fields:
  "m_stream session_active = Some (CPacketStreamFilter Socket)"
  "m_timer session_active = None"
  "m_server session_active = Some (CServerProxy (CPacketStreamFilter Socket))"
  "m_suspended session_active = False"
  "m_connectOnResume session_active = False"
  "m_active session_active = False"
  "m_ready session_active = True"
  "m_cryptoStream session_active = None"
  "m_crypto_mode session_active = kDisabled"
  "handlers session_active (IScreen_suspend, ScreenTarget) = Some JSuspend"
  "handlers session_active (IDataTransfer_connected, StreamTarget) = None"
  "socket_connects session_active = 1"
  by (simp_all add: session_active_def socket_connects_def eval_defs)

section \<open>The clipboard tracker\<close>

lemma sendClipboard_nf:
  assumes "m_server s \<noteq> None"
  shows "sendClipboard e cid s =
     Some (s\<lparr>m_timeClipboard :=
               (if spec_time_changed e s cid
                then (m_timeClipboard s)(cid := fst (screen_getClipboard e cid))
                else m_timeClipboard s),
             m_sentClipboard :=
               (if spec_time_changed e s cid \<and> spec_must_transmit e s cid
                then (m_sentClipboard s)(cid := True) else m_sentClipboard s),
             m_dataClipboard :=
               (if spec_time_changed e s cid \<and> spec_must_transmit e s cid
                then (m_dataClipboard s)(cid := snd (screen_getClipboard e cid))
                else m_dataClipboard s),
             trace :=
               trace s @ [ClipboardOpen (m_timeClipboard s cid), ScreenGetClipboard cid] @
               (if spec_time_changed e s cid \<and> spec_must_transmit e s cid
                then [OnClipboardChanged cid (snd (screen_getClipboard e cid))] else [])\<rparr>)"
proof (cases "spec_time_changed e s cid")
  case False
  then show ?thesis
    using assms
    by (simp add: sendClipboard_def Let_def run_def emit_def spec_time_changed_def)
next
  case True
  show ?thesis
  proof (cases "spec_must_transmit e s cid")
    case t: True
    with True assms show ?thesis
      by (simp add: sendClipboard_def Let_def run_def emit_def spec_time_changed_def
          spec_must_transmit_def)
  next
    case f: False
    with True assms show ?thesis
      by (simp add: sendClipboard_def Let_def run_def emit_def spec_time_changed_def
          spec_must_transmit_def)
  qed
qed

lemma slot_pending_cong: "same_slot s s' cid \<Longrightarrow> slot_pending e s' cid = slot_pending e s cid"
  by (simp add: same_slot_def slot_pending_def spec_time_changed_def spec_must_transmit_def)

lemma same_slot_refl: "same_slot s s cid"
  by (simp add: same_slot_def)

lemma same_slot_trans: "same_slot s s1 cid \<Longrightarrow> same_slot s1 s2 cid \<Longrightarrow> same_slot s s2 cid"
  by (simp add: same_slot_def)

lemma sendClipboard_effect:
  assumes "m_server s \<noteq> None"
  obtains s1 where "sendClipboard e cid s = Some s1"
    and "trace s1 = trace s @ [ClipboardOpen (m_timeClipboard s cid), ScreenGetClipboard cid] @
               (if spec_time_changed e s cid \<and> spec_must_transmit e s cid
                then [OnClipboardChanged cid (snd (screen_getClipboard e cid))] else [])"
    and "m_server s1 = m_server s" and "m_ownClipboard s1 = m_ownClipboard s"
    and "m_active s1 = m_active s"
    and "\<forall>x. x \<noteq> cid \<longrightarrow> same_slot s s1 x"
    and "\<not> (spec_time_changed e s1 cid \<and> spec_must_transmit e s1 cid)"
proof -
  define s1 where "s1 = the (sendClipboard e cid s)"
  have 1: "sendClipboard e cid s = Some s1"
    by (simp add: s1_def sendClipboard_nf [OF assms])
  have 2: "trace s1 = trace s @ [ClipboardOpen (m_timeClipboard s cid), ScreenGetClipboard cid] @
               (if spec_time_changed e s cid \<and> spec_must_transmit e s cid
                then [OnClipboardChanged cid (snd (screen_getClipboard e cid))] else [])"
    by (simp add: s1_def sendClipboard_nf [OF assms])
  have 3: "m_server s1 = m_server s" "m_ownClipboard s1 = m_ownClipboard s"
    "m_active s1 = m_active s"
    by (simp_all add: s1_def sendClipboard_nf [OF assms])
  have 4: "\<forall>x. x \<noteq> cid \<longrightarrow> same_slot s s1 x"
    by (simp add: s1_def sendClipboard_nf [OF assms] same_slot_def)
  have 5: "\<not> (spec_time_changed e s1 cid \<and> spec_must_transmit e s1 cid)"
    by (auto simp add: s1_def sendClipboard_nf [OF assms] spec_time_changed_def
        spec_must_transmit_def)
  from 1 2 3 4 5 show ?thesis by (rule that)
qed

text \<open>
  The loop of \<open>leave\<close>: the payloads it transmits are those of the pending slots, in
  the order of the ids, and afterwards no slot of the list is pending.
\<close>

lemma sendOwned_effect:
  assumes "m_server s \<noteq> None" "distinct cids"
  shows "\<exists>s' acts. sendOwned e cids s = Some s' \<and> trace s' = trace s @ acts \<and>
           filter is_any_payload acts =
             map (\<lambda>c. OnClipboardChanged c (snd (screen_getClipboard e c)))
               (filter (slot_pending e s) cids) \<and>
           m_server s' = m_server s \<and> m_ownClipboard s' = m_ownClipboard s \<and>
           m_active s' = m_active s \<and>
           (\<forall>x. x \<notin> set cids \<longrightarrow> same_slot s s' x) \<and>
           (\<forall>x \<in> set cids. \<not> slot_pending e s' x)"
  using assms
proof (induction cids arbitrary: s)
  case Nil
  then show ?case by (auto simp add: same_slot_refl)
next
  case (Cons c cids)
  from Cons.prems have d: "c \<notin> set cids" "distinct cids" by simp_all
  show ?case
  proof (cases "m_ownClipboard s c")
    case False
    from Cons.IH [OF Cons.prems(1) d(2)] obtain s' acts where
      r: "sendOwned e cids s = Some s'" "trace s' = trace s @ acts"
        "filter is_any_payload acts =
           map (\<lambda>c. OnClipboardChanged c (snd (screen_getClipboard e c)))
             (filter (slot_pending e s) cids)"
        "m_server s' = m_server s" "m_ownClipboard s' = m_ownClipboard s"
        "\<forall>x. x \<notin> set cids \<longrightarrow> same_slot s s' x" "\<forall>x \<in> set cids. \<not> slot_pending e s' x"
        "m_active s' = m_active s"
      by blast
    from False r(5) have "\<not> slot_pending e s' c" "\<not> slot_pending e s c"
      by (simp_all add: slot_pending_def)
    with False r show ?thesis by simp
  next
    case True
    obtain s1 where s1: "sendClipboard e c s = Some s1"
      and t1: "trace s1 = trace s @ [ClipboardOpen (m_timeClipboard s c), ScreenGetClipboard c] @
               (if spec_time_changed e s c \<and> spec_must_transmit e s c
                then [OnClipboardChanged c (snd (screen_getClipboard e c))] else [])"
      and f1: "m_server s1 = m_server s" "m_ownClipboard s1 = m_ownClipboard s"
        "m_active s1 = m_active s"
      and o1: "\<forall>x. x \<noteq> c \<longrightarrow> same_slot s s1 x"
      and p1: "\<not> (spec_time_changed e s1 c \<and> spec_must_transmit e s1 c)"
      using Cons.prems(1) by (rule sendClipboard_effect [where e = e and cid = c])
    from Cons.prems(1) f1 have "m_server s1 \<noteq> None" by simp
    from Cons.IH [OF this d(2)] obtain s' acts where
      r: "sendOwned e cids s1 = Some s'" "trace s' = trace s1 @ acts"
        "filter is_any_payload acts =
           map (\<lambda>c. OnClipboardChanged c (snd (screen_getClipboard e c)))
             (filter (slot_pending e s1) cids)"
        "m_server s' = m_server s1" "m_ownClipboard s' = m_ownClipboard s1"
        "\<forall>x. x \<notin> set cids \<longrightarrow> same_slot s1 s' x" "\<forall>x \<in> set cids. \<not> slot_pending e s' x"
        "m_active s' = m_active s1"
      by blast
    have pend: "filter (slot_pending e s1) cids = filter (slot_pending e s) cids"
    proof (rule filter_cong [OF refl])
      fix x assume "x \<in> set cids"
      with d(1) have "x \<noteq> c" by auto
      then show "slot_pending e s1 x = slot_pending e s x"
        using o1 slot_pending_cong by blast
    qed
    have c': "\<not> slot_pending e s' c"
    proof -
      from r(6) d(1) have "same_slot s1 s' c" by simp
      then have "slot_pending e s' c = slot_pending e s1 c" by (rule slot_pending_cong)
      with p1 show ?thesis by (simp add: slot_pending_def)
    qed
    have out: "\<forall>x. x \<notin> set (c # cids) \<longrightarrow> same_slot s s' x"
    proof (intro allI impI)
      fix x assume "x \<notin> set (c # cids)"
      then have "x \<noteq> c" "x \<notin> set cids" by simp_all
      with o1 r(6) show "same_slot s s' x" using same_slot_trans by blast
    qed
    define acts1 where
      "acts1 = [ClipboardOpen (m_timeClipboard s c), ScreenGetClipboard c] @
               (if spec_time_changed e s c \<and> spec_must_transmit e s c
                then [OnClipboardChanged c (snd (screen_getClipboard e c))] else [])"
    have a1: "filter is_any_payload acts1 =
                (if slot_pending e s c
                 then [OnClipboardChanged c (snd (screen_getClipboard e c))] else [])"
      using True by (simp add: acts1_def slot_pending_def)
    have "sendOwned e (c # cids) s = Some s'"
      using True s1 r(1) by simp
    moreover have "trace s' = trace s @ (acts1 @ acts)"
      by (simp add: r(2) t1 acts1_def)
    moreover have "filter is_any_payload (acts1 @ acts) =
             map (\<lambda>c. OnClipboardChanged c (snd (screen_getClipboard e c)))
               (filter (slot_pending e s) (c # cids))"
      by (simp add: a1 r(3) pend)
    moreover have "m_server s' = m_server s" "m_ownClipboard s' = m_ownClipboard s"
      "m_active s' = m_active s"
      by (simp_all add: r f1)
    moreover have "\<forall>x \<in> set (c # cids). \<not> slot_pending e s' x"
      using c' r(7) by simp
    ultimately show ?thesis using out by blast
  qed
qed

lemma leave_effect:
  assumes "m_server s \<noteq> None"
  shows "\<exists>s' acts. leave K e s = Some s' \<and> trace s' = trace s @ ScreenLeave # acts \<and>
           filter is_any_payload acts =
             map (\<lambda>c. OnClipboardChanged c (snd (screen_getClipboard e c)))
               (filter (slot_pending e s) [0..<kClipboardEnd K]) \<and>
           m_server s' = m_server s \<and> m_ownClipboard s' = m_ownClipboard s \<and> \<not> m_active s' \<and>
           (\<forall>x < kClipboardEnd K. \<not> slot_pending e s' x)"
proof -
  define s0 where "s0 = run [emit ScreenLeave, \<lambda>s. s\<lparr>m_active := False\<rparr>] s"
  have s0: "m_server s0 \<noteq> None" "trace s0 = trace s @ [ScreenLeave]"
    "m_server s0 = m_server s" "m_ownClipboard s0 = m_ownClipboard s" "\<not> m_active s0"
    "\<And>x. same_slot s s0 x"
    using assms by (simp_all add: s0_def run_def emit_def same_slot_def)
  from sendOwned_effect [OF s0(1), of "[0..<kClipboardEnd K]" e] obtain s' acts where
    r: "sendOwned e [0..<kClipboardEnd K] s0 = Some s'" "trace s' = trace s0 @ acts"
      "filter is_any_payload acts =
         map (\<lambda>c. OnClipboardChanged c (snd (screen_getClipboard e c)))
           (filter (slot_pending e s0) [0..<kClipboardEnd K])"
      "m_server s' = m_server s0" "m_ownClipboard s' = m_ownClipboard s0"
      "\<forall>x \<in> set [0..<kClipboardEnd K]. \<not> slot_pending e s' x"
      "m_active s' = m_active s0"
    by auto
  have "slot_pending e s0 = slot_pending e s"
    using s0(6) slot_pending_cong by blast
  with r s0(2-5) have
    "leave K e s = Some s' \<and> trace s' = trace s @ ScreenLeave # acts \<and>
           filter is_any_payload acts =
             map (\<lambda>c. OnClipboardChanged c (snd (screen_getClipboard e c)))
               (filter (slot_pending e s) [0..<kClipboardEnd K]) \<and>
           m_server s' = m_server s \<and> m_ownClipboard s' = m_ownClipboard s \<and> \<not> m_active s' \<and>
           (\<forall>x < kClipboardEnd K. \<not> slot_pending e s' x)"
    by (simp add: leave_def s0_def)
  then show ?thesis by blast
qed

section \<open>Properties of the session\<close>

text \<open>
  C5. In every state reachable by completed invocations: if the handshake timer is
  present, the session is Connecting or AwaitingHello (so the timer is absent whenever
  the server proxy exists); if the server proxy is present, the session is Active; if a
  stream is present, the session is not Idle.
\<close>

theorem session_state_invariant:
  assumes "reachable K s"
  shows "(m_timer s \<noteq> None \<longrightarrow> phase_of s = Connecting \<or> phase_of s = AwaitingHello) \<and>
         (m_server s \<noteq> None \<longrightarrow> m_timer s = None) \<and>
         (m_server s \<noteq> None \<longrightarrow> phase_of s = Active) \<and>
         (m_stream s \<noteq> None \<longrightarrow> phase_of s \<noteq> Idle)"
proof -
  from assms obtain ph where p: "in_phase ph s"
    using reachable_in_phase by blast
  then have "phase_of s = ph" by (rule in_phase_phase_of)
  with p show ?thesis
    by (cases ph) (simp_all add: in_phase_def)
qed

theorem session_state_invariant_witness:
  "reachable K16 session_awaiting \<and> m_timer session_awaiting \<noteq> None \<and>
   m_stream session_awaiting \<noteq> None \<and> phase_of session_awaiting = AwaitingHello \<and>
   reachable K16 session_active \<and> m_server session_active \<noteq> None \<and>
   m_timer session_active = None \<and> phase_of session_active = Active"
  using session_state_invariant [OF reachable_session_awaiting]
    session_state_invariant [OF reachable_session_active]
    reachable_session_awaiting reachable_session_active
  by (simp add: session_awaiting_fields session_active_fields phase_of_def)

text \<open>
  C10. \<open>setDecryptIv\<close> with no crypto layer (\<open>m_cryptoStream\<close> null) changes nothing and
  does not abort, for every \<open>iv\<close>. That is the case in every reachable state of a
  session with crypto disabled, and in the state the constructor leaves, before any
  \<open>connect\<close>.
\<close>

theorem setDecryptIv_without_crypto_layer:
  "(m_cryptoStream s = None \<longrightarrow> setDecryptIv iv s = Some s) \<and>
   (reachable K s \<and> m_crypto_mode s = kDisabled \<longrightarrow> setDecryptIv iv s = Some s) \<and>
   setDecryptIv iv (CClient_ctor name address filterFactory crypto own0 sent0 time0) =
     Some (CClient_ctor name address filterFactory crypto own0 sent0 time0)"
proof (intro conjI impI)
  assume "m_cryptoStream s = None"
  then show "setDecryptIv iv s = Some s" by (simp add: setDecryptIv_def)
next
  assume a: "reachable K s \<and> m_crypto_mode s = kDisabled"
  then have "side_inv s" using reachable_side_inv by blast
  with a have "m_cryptoStream s = None" by (simp add: side_inv_def)
  then show "setDecryptIv iv s = Some s" by (simp add: setDecryptIv_def)
next
  show "setDecryptIv iv (CClient_ctor name address filterFactory crypto own0 sent0 time0) =
     Some (CClient_ctor name address filterFactory crypto own0 sent0 time0)"
    by (simp add: setDecryptIv_def CClient_ctor_def prim_defs)
qed

theorem setDecryptIv_without_crypto_layer_witness:
  "m_cryptoStream client0 = None \<and> setDecryptIv [1, 2, 3] client0 = Some client0 \<and>
   reachable K16 session_active \<and> m_crypto_mode session_active = kDisabled \<and>
   setDecryptIv [1, 2, 3] session_active = Some session_active"
  using setDecryptIv_without_crypto_layer [of client0 "[1, 2, 3]" K16]
    setDecryptIv_without_crypto_layer [of session_active "[1, 2, 3]" K16]
    reachable_session_active
  by (simp add: client0_fields session_active_fields)

text \<open>
  C6. \<open>connect\<close> with a stream already present returns at once and leaves the whole
  session as it is; \<open>connect\<close> while suspended, with no stream, sets
  \<open>m_connectOnResume\<close> and changes nothing else, with no call to any collaborator;
  so a \<open>connect\<close> that touches the stream or calls a collaborator started with no stream
  and not suspended.
\<close>

theorem connect_guards:
  "(m_stream s \<noteq> None \<longrightarrow> connect e s = Some s) \<and>
   (m_stream s = None \<and> m_suspended s \<longrightarrow>
      connect e s = Some (s\<lparr>m_connectOnResume := True\<rparr>)) \<and>
   (connect e s = Some s' \<and> (m_stream s' \<noteq> m_stream s \<or> trace s' \<noteq> trace s) \<longrightarrow>
      m_stream s = None \<and> \<not> m_suspended s)"
proof (intro conjI impI)
  assume "m_stream s \<noteq> None"
  then show "connect e s = Some s" by (simp add: connect_def)
next
  assume "m_stream s = None \<and> m_suspended s"
  then show "connect e s = Some (s\<lparr>m_connectOnResume := True\<rparr>)" by (simp add: connect_def)
next
  assume a: "connect e s = Some s' \<and> (m_stream s' \<noteq> m_stream s \<or> trace s' \<noteq> trace s)"
  show "m_stream s = None"
  proof (rule ccontr)
    assume "m_stream s \<noteq> None"
    with a have "s' = s" by (simp add: connect_def)
    with a show False by simp
  qed
next
  assume a: "connect e s = Some s' \<and> (m_stream s' \<noteq> m_stream s \<or> trace s' \<noteq> trace s)"
  show "\<not> m_suspended s"
  proof
    assume su: "m_suspended s"
    show False
    proof (cases "m_stream s = None")
      case True
      with su a have "s' = s\<lparr>m_connectOnResume := True\<rparr>" by (simp add: connect_def)
      with a show False by simp
    next
      case False
      with a have "s' = s" by (simp add: connect_def)
      with a show False by simp
    qed
  qed
qed

theorem connect_guards_witness:
  "m_stream session_awaiting \<noteq> None \<and> connect env0 session_awaiting = Some session_awaiting \<and>
   m_stream (client0\<lparr>m_suspended := True\<rparr>) = None \<and> m_suspended (client0\<lparr>m_suspended := True\<rparr>) \<and>
   connect env0 (client0\<lparr>m_suspended := True\<rparr>) =
     Some (client0\<lparr>m_suspended := True, m_connectOnResume := True\<rparr>) \<and>
   connect env0 client0 = Some session_connecting \<and>
   m_stream session_connecting \<noteq> m_stream client0 \<and>
   m_stream client0 = None \<and> \<not> m_suspended client0"
  using connect_guards [of session_awaiting env0 session_awaiting]
    connect_guards [of "client0\<lparr>m_suspended := True\<rparr>" env0 session_connecting]
    connect_guards [of client0 env0 session_connecting]
    session_connecting_steps
  by (simp add: session_awaiting_fields client0_fields session_connecting_fields
      split: option.splits)

text \<open>
  C9. Every \<open>disconnect\<close> leaves \<open>m_connectOnResume\<close> false. \<open>handleSuspend\<close> sets the
  flag to its snapshot after \<open>disconnect\<close> has returned. No other invocation that runs
  \<open>disconnect\<close> turns the flag on: an invocation that turns it on is either the suspend
  handler, with the proxy present, or a \<open>connect\<close> while suspended.
\<close>

theorem disconnect_cancels_reconnect:
  "m_connectOnResume (disconnect msg s) = False \<and>
   handleSuspend s =
     (disconnect None (s\<lparr>m_suspended := True\<rparr>))\<lparr>m_connectOnResume := isConnected s\<rparr> \<and>
   m_connectOnResume (handleSuspend s) = isConnected s \<and>
   (step K e c s = Some s' \<and> m_connectOnResume s' \<and> \<not> m_connectOnResume s \<longrightarrow>
      (\<exists>et tg. c = CDispatch et tg \<and> handlers s (et, tg) = Some JSuspend \<and> isConnected s) \<or>
      (c = CConnect \<and> m_suspended s \<and> m_stream s = None))"
proof (intro conjI impI)
  show "m_connectOnResume (disconnect msg s) = False"
    by (simp add: disconnect_fields)
  show eq: "handleSuspend s =
     (disconnect None (s\<lparr>m_suspended := True\<rparr>))\<lparr>m_connectOnResume := isConnected s\<rparr>"
    by (simp add: handleSuspend_def Let_def isConnected_def)
  show su: "m_connectOnResume (handleSuspend s) = isConnected s"
    by (simp add: eq)
  assume a: "step K e c s = Some s' \<and> m_connectOnResume s' \<and> \<not> m_connectOnResume s"
  show "(\<exists>et tg. c = CDispatch et tg \<and> handlers s (et, tg) = Some JSuspend \<and> isConnected s) \<or>
        (c = CConnect \<and> m_suspended s \<and> m_stream s = None)"
  proof (cases c)
    case CConnect
    with a have c: "connect e s = Some s'" by simp
    have "m_stream s = None"
    proof (rule ccontr)
      assume "m_stream s \<noteq> None"
      with c have "s' = s" by (simp add: connect_def)
      with a show False by simp
    qed
    moreover have "m_suspended s"
    proof (rule ccontr)
      assume "\<not> m_suspended s"
      with c \<open>m_stream s = None\<close> have "keeps_settings s s'"
        using connect_effect by blast
      with a show False by (simp add: keeps_settings_def)
    qed
    ultimately show ?thesis using CConnect by simp
  next
    case (CDisconnect m)
    with a have "s' = disconnect m s" by auto
    with a show ?thesis by (simp add: disconnect_fields)
  next
    case (CProxy pc)
    with a have "call_method K e pc s = Some s'"
      by (simp split: if_splits)
    then have "same_session s s'" by (rule call_method_same)
    with a show ?thesis by (simp add: same_session_def)
  next
    case (CDispatch et tg)
    show ?thesis
    proof (cases "handlers s (et, tg)")
      case None
      with a CDispatch show ?thesis by auto
    next
      case (Some j)
      with a CDispatch have r: "run_job K e j s = Some s'" by simp
      have "j = JSuspend \<and> isConnected s"
      proof (cases j)
        case JConnected
        with r a show ?thesis using handleConnected_flags(2) by auto
      next
        case JConnectionFailed
        with r a show ?thesis
          using teardown_keeps_settings(1) [of s e] by (auto simp add: keeps_settings_def)
      next
        case JConnectTimeout
        with r a show ?thesis
          using teardown_keeps_settings(2) [of s] by (auto simp add: keeps_settings_def)
      next
        case JHello
        with r a show ?thesis
          using handleHello_keeps_settings [of K e s s'] by (auto simp add: keeps_settings_def)
      next
        case JOutputError
        with r a show ?thesis
          using teardown_keeps_settings(3) [of s] by (auto simp add: keeps_settings_def)
      next
        case JDisconnected
        with r a show ?thesis
          using teardown_keeps_settings(4) [of s] by (auto simp add: keeps_settings_def)
      next
        case JShapeChanged
        with r have "same_session s s'" by (simp add: quiet_handlers_same)
        with a show ?thesis by (simp add: same_session_def)
      next
        case JClipboardGrabbed
        with r have "same_session s s'" by (simp add: handleClipboardGrabbed_same)
        with a show ?thesis by (simp add: same_session_def)
      next
        case JSuspend
        with r a su show ?thesis by auto
      next
        case JResume
        with r a show ?thesis using handleResume_flags by auto
      next
        case JGameDeviceTimingResp
        with r have "same_session s s'" by (simp add: quiet_handlers_same)
        with a show ?thesis by (simp add: same_session_def)
      next
        case JGameDeviceFeedback
        with r have "same_session s s'" by (simp add: quiet_handlers_same)
        with a show ?thesis by (simp add: same_session_def)
      next
        case JProxyHandleData
        with r a show ?thesis by auto
      qed
      with Some CDispatch show ?thesis by simp
    qed
  qed
qed

theorem disconnect_cancels_reconnect_witness:
  "step K16 env0 (CDispatch IScreen_suspend ScreenTarget) session_active =
     Some (handleSuspend session_active) \<and>
   m_connectOnResume (handleSuspend session_active) \<and> \<not> m_connectOnResume session_active \<and>
   handlers session_active (IScreen_suspend, ScreenTarget) = Some JSuspend \<and>
   isConnected session_active \<and>
   m_connectOnResume (disconnect None session_active) = False"
  using disconnect_cancels_reconnect
    [of None session_active K16 env0 "CDispatch IScreen_suspend ScreenTarget"
        "handleSuspend session_active"]
  by (simp add: session_active_fields isConnected_def)

text \<open>
  C8. \<open>disconnect msg\<close> tears everything down and then adds exactly one lifecycle event,
  which is the last call it makes: \<open>ConnectionFailed\<close> with \<open>msg\<close> and the retry hint
  when \<open>msg\<close> is present, \<open>Disconnected\<close> when it is absent. The teardown is: the timer
  handler and the timer if there is a timer; the screen disabled if it was ready, the two
  screen handlers and the proxy if there is a proxy; every handler of the stream and the
  stream if there is a stream. Afterwards there is no timer, proxy or stream, the screen
  is not ready unless it was and no proxy existed, and in a reachable state only the
  handlers of the constructor are left registered. Every \<open>ConnectionFailed\<close> event
  in the trace of a reachable state carries the retry hint.
\<close>

theorem disconnect_lifecycle_event:
  "appended s (disconnect msg s) =
     (if m_timer s = None then [] else [RemoveHandler kTimer TimerTarget, DeleteTimer]) @
     (if m_server s = None then []
      else (if m_ready s then [ScreenDisable] else []) @
           [RemoveHandler IScreen_shapeChanged ScreenTarget,
            RemoveHandler IScreen_clipboardGrabbed ScreenTarget,
            RemoveHandler inputReady StreamTarget, DeleteServerProxy]) @
     (case m_stream s of
        None \<Rightarrow> []
      | Some st \<Rightarrow>
          [RemoveHandler IDataTransfer_connected StreamTarget,
           RemoveHandler IDataTransfer_connectionFailed StreamTarget,
           RemoveHandler inputReady StreamTarget, RemoveHandler outputError StreamTarget,
           RemoveHandler inputShutdown StreamTarget, RemoveHandler outputShutdown StreamTarget,
           RemoveHandler ISocket_disconnected StreamTarget, DeleteStream st]) @
     [AddEvent (case msg of Some m \<Rightarrow> ConnectionFailed m True | None \<Rightarrow> Disconnected)] \<and>
   teardown_then_event (appended s (disconnect msg s)) \<and>
   last (appended s (disconnect msg s)) =
     AddEvent (case msg of Some m \<Rightarrow> ConnectionFailed m True | None \<Rightarrow> Disconnected) \<and>
   length (filter is_lifecycle (appended s (disconnect msg s))) = 1 \<and>
   m_timer (disconnect msg s) = None \<and> m_server (disconnect msg s) = None \<and>
   m_stream (disconnect msg s) = None \<and>
   m_ready (disconnect msg s) = (m_ready s \<and> m_server s = None) \<and>
   (reachable K s \<longrightarrow> handlers (disconnect msg s) = base_handlers) \<and>
   (reachable K s' \<and> AddEvent (ConnectionFailed m r) \<in> set (trace s') \<longrightarrow> r)"
proof -
  have calls: "appended s (disconnect msg s) =
     (if m_timer s = None then [] else [RemoveHandler kTimer TimerTarget, DeleteTimer]) @
     (if m_server s = None then []
      else (if m_ready s then [ScreenDisable] else []) @
           [RemoveHandler IScreen_shapeChanged ScreenTarget,
            RemoveHandler IScreen_clipboardGrabbed ScreenTarget,
            RemoveHandler inputReady StreamTarget, DeleteServerProxy]) @
     (case m_stream s of
        None \<Rightarrow> []
      | Some st \<Rightarrow>
          [RemoveHandler IDataTransfer_connected StreamTarget,
           RemoveHandler IDataTransfer_connectionFailed StreamTarget,
           RemoveHandler inputReady StreamTarget, RemoveHandler outputError StreamTarget,
           RemoveHandler inputShutdown StreamTarget, RemoveHandler outputShutdown StreamTarget,
           RemoveHandler ISocket_disconnected StreamTarget, DeleteStream st]) @
     [AddEvent (case msg of Some m \<Rightarrow> ConnectionFailed m True | None \<Rightarrow> Disconnected)]"
    by (cases "m_timer s"; cases "m_server s"; cases "m_stream s"; cases "m_ready s")
       (simp_all add: appended_def disconnect_nf ops_nf)
  have order: "teardown_then_event (appended s (disconnect msg s))"
    by (cases msg)
       (simp_all add: teardown_then_event_def appended_def disconnect_nf ops_nf
          split: option.splits)
  have final: "last (appended s (disconnect msg s)) =
     AddEvent (case msg of Some m \<Rightarrow> ConnectionFailed m True | None \<Rightarrow> Disconnected)"
    by (simp add: appended_def disconnect_nf ops_nf)
  have one: "length (filter is_lifecycle (appended s (disconnect msg s))) = 1"
    by (cases msg) (simp_all add: appended_def disconnect_nf ops_nf split: option.splits)
  have ptrs: "m_timer (disconnect msg s) = None" "m_server (disconnect msg s) = None"
    "m_stream (disconnect msg s) = None"
    by (simp_all add: disconnect_fields)
  have ready: "m_ready (disconnect msg s) = (m_ready s \<and> m_server s = None)"
    by (simp add: disconnect_nf ops_nf)
  have table: "handlers (disconnect msg s) = base_handlers" if "reachable K s"
  proof -
    from that obtain ph where "in_phase ph s" using reachable_in_phase by blast
    then have "in_phase Idle (disconnect msg s)" by (rule in_phase_disconnect)
    then show ?thesis by (simp add: in_phase_Idle)
  qed
  have retry: r if a: "reachable K s' \<and> AddEvent (ConnectionFailed m r) \<in> set (trace s')"
  proof -
    from a have "side_inv s'" using reachable_side_inv by blast
    then have "list_all retry_ok (trace s')" by (simp add: side_inv_def)
    with a have "retry_ok (AddEvent (ConnectionFailed m r))"
      by (auto simp add: list_all_iff)
    then show r by simp
  qed
  from calls order final one ptrs ready table retry
  show ?thesis by blast
qed

theorem disconnect_lifecycle_event_witness:
  "reachable K16 session_active \<and> m_server session_active \<noteq> None \<and>
   m_stream session_active \<noteq> None \<and> m_ready session_active \<and>
   handlers session_active (IScreen_clipboardGrabbed, ScreenTarget) = Some JClipboardGrabbed \<and>
   appended session_active (disconnect (Some ''bye'') session_active) =
     [ScreenDisable,
      RemoveHandler IScreen_shapeChanged ScreenTarget,
      RemoveHandler IScreen_clipboardGrabbed ScreenTarget,
      RemoveHandler inputReady StreamTarget, DeleteServerProxy,
      RemoveHandler IDataTransfer_connected StreamTarget,
      RemoveHandler IDataTransfer_connectionFailed StreamTarget,
      RemoveHandler inputReady StreamTarget, RemoveHandler outputError StreamTarget,
      RemoveHandler inputShutdown StreamTarget, RemoveHandler outputShutdown StreamTarget,
      RemoveHandler ISocket_disconnected StreamTarget,
      DeleteStream (CPacketStreamFilter Socket),
      AddEvent (ConnectionFailed ''bye'' True)] \<and>
   \<not> m_ready (disconnect (Some ''bye'') session_active) \<and>
   handlers (disconnect (Some ''bye'') session_active) = base_handlers \<and>
   handlers (disconnect (Some ''bye'') session_active) (IScreen_clipboardGrabbed, ScreenTarget)
     = None \<and>
   reachable K16 (disconnect (Some ''bye'') session_active) \<and>
   AddEvent (ConnectionFailed ''bye'' True)
     \<in> set (trace (disconnect (Some ''bye'') session_active))"
proof -
  have "step K16 env0 (CDisconnect (Some ''bye'')) session_active =
          Some (disconnect (Some ''bye'') session_active)"
    by simp
  with reachable_session_active
  have r: "reachable K16 (disconnect (Some ''bye'') session_active)"
    by (rule r_step)
  have e: "AddEvent (ConnectionFailed ''bye'' True)
             \<in> set (trace (disconnect (Some ''bye'') session_active))"
    by (simp add: disconnect_nf ops_nf)
  have g: "handlers session_active (IScreen_clipboardGrabbed, ScreenTarget) =
             Some JClipboardGrabbed"
    by (simp add: session_active_def eval_defs)
  from r e g reachable_session_active show ?thesis
    using disconnect_lifecycle_event
      [of session_active "Some ''bye''" K16 "disconnect (Some ''bye'') session_active"
          "''bye''" True]
    by (simp add: session_active_fields base_handlers_def)
qed

text \<open>
  C4. \<open>handleSuspend\<close> sets \<open>m_suspended\<close>, takes the snapshot "the server proxy
  exists", runs \<open>disconnect\<close> without a message, which always ends by adding the one
  \<open>Disconnected\<close> event, and then sets \<open>m_connectOnResume\<close> to the snapshot.
  \<open>handleResume\<close> clears \<open>m_suspended\<close>; if the flag was set it clears the flag and
  calls \<open>connect\<close> once, otherwise it does nothing else. After it both flags are
  clear, and the transport was asked to connect at most once, and not at all if the flag
  was not set.
\<close>

theorem suspend_resume:
  "m_suspended (handleSuspend s) \<and>
   m_connectOnResume (handleSuspend s) = (m_server s \<noteq> None) \<and>
   handleSuspend s =
     (disconnect None (s\<lparr>m_suspended := True\<rparr>))\<lparr>m_connectOnResume := (m_server s \<noteq> None)\<rparr> \<and>
   last (appended s (handleSuspend s)) = AddEvent Disconnected \<and>
   length (filter is_lifecycle (appended s (handleSuspend s))) = 1 \<and>
   handleResume e s =
     (if m_connectOnResume s
      then connect e (s\<lparr>m_suspended := False, m_connectOnResume := False\<rparr>)
      else Some (s\<lparr>m_suspended := False\<rparr>)) \<and>
   (handleResume e s = Some s' \<longrightarrow>
      \<not> m_suspended s' \<and> \<not> m_connectOnResume s' \<and>
      socket_connects s' \<le> socket_connects s + 1 \<and>
      (\<not> m_connectOnResume s \<longrightarrow> socket_connects s' = socket_connects s))"
proof (intro conjI impI)
  show eq: "handleSuspend s =
     (disconnect None (s\<lparr>m_suspended := True\<rparr>))\<lparr>m_connectOnResume := (m_server s \<noteq> None)\<rparr>"
    by (simp add: handleSuspend_def Let_def isConnected_def)
  show "m_suspended (handleSuspend s)"
    by (simp add: eq disconnect_fields)
  show "m_connectOnResume (handleSuspend s) = (m_server s \<noteq> None)"
    by (simp add: eq)
  show "last (appended s (handleSuspend s)) = AddEvent Disconnected"
    by (simp add: eq appended_def disconnect_nf ops_nf)
  show "length (filter is_lifecycle (appended s (handleSuspend s))) = 1"
    by (simp add: eq appended_def disconnect_nf ops_nf split: option.splits)
  show "handleResume e s =
     (if m_connectOnResume s
      then connect e (s\<lparr>m_suspended := False, m_connectOnResume := False\<rparr>)
      else Some (s\<lparr>m_suspended := False\<rparr>))"
    by (simp add: handleResume_def Let_def)
next
  assume a: "handleResume e s = Some s'"
  then show "\<not> m_suspended s'" "\<not> m_connectOnResume s'"
    using handleResume_flags by blast+
  define s1 where "s1 = s\<lparr>m_suspended := False, m_connectOnResume := False\<rparr>"
  have n: "socket_connects s1 = socket_connects s"
    by (simp add: s1_def socket_connects_def)
  show "socket_connects s' \<le> socket_connects s + 1"
  proof (cases "m_connectOnResume s")
    case False
    with a have "s' = s\<lparr>m_suspended := False\<rparr>" by (simp add: handleResume_def Let_def)
    then show ?thesis by (simp add: socket_connects_def)
  next
    case True
    with a have c: "connect e s1 = Some s'" by (simp add: handleResume_def Let_def s1_def)
    show ?thesis
    proof (cases "m_stream s = None")
      case False
      with c have "s' = s1" by (simp add: connect_def s1_def)
      with n show ?thesis by simp
    next
      case n2: True
      then have "m_stream s1 = None" "\<not> m_suspended s1" by (simp_all add: s1_def)
      from connect_effect [OF c this] n show ?thesis by simp
    qed
  qed
next
  assume a: "handleResume e s = Some s'" and f: "\<not> m_connectOnResume s"
  then have "s' = s\<lparr>m_suspended := False\<rparr>" by (simp add: handleResume_def Let_def)
  then show "socket_connects s' = socket_connects s" by (simp add: socket_connects_def)
qed

lemma session_resumed_eval:
  "handleResume env0 (handleSuspend session_active) = Some session_resumed"
proof -
  have "handleResume env0 (handleSuspend session_active) \<noteq> None"
    by (simp add: handleResume_def handleSuspend_def Let_def isConnected_def disconnect_nf ops_nf
        session_active_def eval_defs)
  then show ?thesis by (simp add: session_resumed_def)
qed

lemma session_resumed_fields:
  "socket_connects session_resumed = 2"
  "m_stream session_resumed = Some (CPacketStreamFilter Socket)"
  by (simp_all add: session_resumed_def socket_connects_def handleResume_def handleSuspend_def
      Let_def isConnected_def disconnect_nf ops_nf session_active_def eval_defs)

theorem suspend_resume_witness:
  "m_connectOnResume (handleSuspend session_active) \<and>
   handleResume env0 (handleSuspend session_active) = Some session_resumed \<and>
   \<not> m_suspended session_resumed \<and> \<not> m_connectOnResume session_resumed \<and>
   socket_connects session_resumed = socket_connects (handleSuspend session_active) + 1"
proof -
  have n: "socket_connects (handleSuspend session_active) = 1"
    by (simp add: socket_connects_def handleSuspend_def Let_def disconnect_nf ops_nf
        session_active_fields [unfolded socket_connects_def])
  from suspend_resume [of session_active env0 session_resumed]
  have "m_connectOnResume (handleSuspend session_active) = (m_server session_active \<noteq> None)"
    by blast
  then have f: "m_connectOnResume (handleSuspend session_active)"
    by (simp add: session_active_fields)
  from suspend_resume [of "handleSuspend session_active" env0 session_resumed]
  have "handleResume env0 (handleSuspend session_active) = Some session_resumed \<longrightarrow>
          \<not> m_suspended session_resumed \<and> \<not> m_connectOnResume session_resumed"
    by blast
  with session_resumed_eval
  have g: "\<not> m_suspended session_resumed \<and> \<not> m_connectOnResume session_resumed"
    by blast
  from f g session_resumed_eval show ?thesis
    by (simp add: n session_resumed_fields)
qed





lemma session_hello_eval:
  "handleHello K16 env0 session_awaiting = Some session_hello"
  "handleHello K16 env_old session_awaiting = Some session_refused"
  "handleHello K16 env_garbled session_awaiting = Some session_protocol_error"
proof -
  have "handleHello K16 env0 session_awaiting \<noteq> None"
    "handleHello K16 env_old session_awaiting \<noteq> None"
    "handleHello K16 env_garbled session_awaiting \<noteq> None"
    by (simp_all add: session_awaiting_def env_old_def env_garbled_def eval_defs)
  then show "handleHello K16 env0 session_awaiting = Some session_hello"
    "handleHello K16 env_old session_awaiting = Some session_refused"
    "handleHello K16 env_garbled session_awaiting = Some session_protocol_error"
    by (simp_all add: session_hello_def session_refused_def session_protocol_error_def)
qed



text \<open>
  The failure paths other than those of \<open>handleHello\<close> tear down first and add the
  lifecycle event last.
\<close>

lemma sibling_paths_teardown_then_event:
  "teardown_then_event (appended s (handleConnectionFailed e s))"
  "teardown_then_event (appended s (handleConnectTimeout s))"
  "teardown_then_event (appended s (handleOutputError s))"
  "teardown_then_event (appended s (handleDisconnected s))"
  "teardown_then_event (appended s (connect_catch what s))"
  by (simp_all add: teardown_then_event_def appended_def handleConnectionFailed_def
      handleConnectTimeout_def handleOutputError_def handleDisconnected_def connect_catch_def
      ops_nf split: option.splits)

text \<open>
  C1. Every failure path tears down (timer, screen if set up, connection) before it adds
  its lifecycle event. This does not hold on the two failure paths of \<open>handleHello\<close>,
  which add the \<open>ConnectionFailed\<close> event first and tear down afterwards: when the first
  frame is not a Hello, the event is the first call, followed by the removal of the
  timer, of the handlers of the stream, and of the stream.
\<close>

theorem handleHello_protocol_error_event_first:
  "handleHello K16 env_garbled session_awaiting = Some session_protocol_error \<and>
   appended session_awaiting session_protocol_error =
     [AddEvent (ConnectionFailed ''Protocol error from server'' True),
      RemoveHandler kTimer TimerTarget, DeleteTimer,
      RemoveHandler inputReady StreamTarget, RemoveHandler outputError StreamTarget,
      RemoveHandler inputShutdown StreamTarget, RemoveHandler outputShutdown StreamTarget,
      RemoveHandler ISocket_disconnected StreamTarget,
      DeleteStream (CPacketStreamFilter Socket)] \<and>
   \<not> teardown_then_event (appended session_awaiting session_protocol_error)"
proof -
  have "appended session_awaiting session_protocol_error =
     [AddEvent (ConnectionFailed ''Protocol error from server'' True),
      RemoveHandler kTimer TimerTarget, DeleteTimer,
      RemoveHandler inputReady StreamTarget, RemoveHandler outputError StreamTarget,
      RemoveHandler inputShutdown StreamTarget, RemoveHandler outputShutdown StreamTarget,
      RemoveHandler ISocket_disconnected StreamTarget,
      DeleteStream (CPacketStreamFilter Socket)]"
    by (simp add: appended_def session_protocol_error_def session_awaiting_def env_garbled_def
        eval_defs ops_nf)
  then show ?thesis
    by (simp add: session_hello_eval teardown_then_event_def)
qed


lemma handleClipboardGrabbed_nf:
  assumes "m_server s \<noteq> None"
  shows "handleClipboardGrabbed e s =
     (if m_active s
      then Some (s\<lparr>trace := trace s @ [OnGrabClipboard (info_id e)],
                   m_ownClipboard := (m_ownClipboard s)(info_id e := True),
                   m_sentClipboard := (m_sentClipboard s)(info_id e := False),
                   m_timeClipboard := (m_timeClipboard s)(info_id e := 0)\<rparr>)
      else sendClipboard e (info_id e)
             (s\<lparr>trace := trace s @ [OnGrabClipboard (info_id e)],
                m_ownClipboard := (m_ownClipboard s)(info_id e := True),
                m_sentClipboard := (m_sentClipboard s)(info_id e := False),
                m_timeClipboard := (m_timeClipboard s)(info_id e := 0)\<rparr>))"
proof -
  from assms obtain p where "m_server s = Some p" by blast
  then show ?thesis
    by (simp add: handleClipboardGrabbed_def Let_def emit_def)
qed


lemma session_grabbed_fields:
  "m_server session_entered \<noteq> None" "m_active session_entered"
  "handleClipboardGrabbed env0 session_entered = Some session_grabbed"
  "m_server session_grabbed \<noteq> None"
  "appended session_entered session_grabbed = [OnGrabClipboard 0]"
  "m_ownClipboard session_grabbed 0" "\<not> m_sentClipboard session_grabbed 0"
  "m_timeClipboard session_grabbed 0 = 0"
proof -
  show e: "m_server session_entered \<noteq> None" "m_active session_entered"
    by (simp_all add: session_entered_def enter_def run_def emit_def session_active_fields)
  then have "handleClipboardGrabbed env0 session_entered \<noteq> None"
    by (simp add: handleClipboardGrabbed_nf)
  then show g: "handleClipboardGrabbed env0 session_entered = Some session_grabbed"
    by (simp add: session_grabbed_def)
  have "handleClipboardGrabbed env0 session_entered =
     Some (session_entered
       \<lparr>trace := trace session_entered @ [OnGrabClipboard 0],
        m_ownClipboard := (m_ownClipboard session_entered)(0 := True),
        m_sentClipboard := (m_sentClipboard session_entered)(0 := False),
        m_timeClipboard := (m_timeClipboard session_entered)(0 := 0)\<rparr>)"
    by (simp add: handleClipboardGrabbed_nf [OF e(1)] e(2) env0_def)
  with g have eq: "session_grabbed =
     session_entered
       \<lparr>trace := trace session_entered @ [OnGrabClipboard 0],
        m_ownClipboard := (m_ownClipboard session_entered)(0 := True),
        m_sentClipboard := (m_sentClipboard session_entered)(0 := False),
        m_timeClipboard := (m_timeClipboard session_entered)(0 := 0)\<rparr>"
    by simp
  show "m_server session_grabbed \<noteq> None"
    "appended session_entered session_grabbed = [OnGrabClipboard 0]"
    "m_ownClipboard session_grabbed 0" "\<not> m_sentClipboard session_grabbed 0"
    "m_timeClipboard session_grabbed 0 = 0"
    using e(1) by (simp_all add: eq appended_def)
qed


text \<open>
  C7. On a local grab of slot \<open>id\<close>, with the proxy present, the client first tells the
  proxy of the ownership and marks the slot owned, not sent, with timestamp 0. If the
  remote is on the screen (\<open>m_active\<close>), nothing else is called, and the next \<open>leave\<close>
  transmits the payload of the slot; if not, the payload is fetched and transmitted at
  once, after the notice of ownership, and the slot records it as sent.
\<close>

theorem handleClipboardGrabbed_notifies_then_sends:
  assumes "m_server s \<noteq> None"
  shows "\<exists>s'. handleClipboardGrabbed e s = Some s' \<and> m_ownClipboard s' (info_id e) \<and>
     hd (appended s s') = OnGrabClipboard (info_id e) \<and>
     (filter (is_payload (info_id e)) (appended s s') \<noteq> []) = (\<not> m_active s) \<and>
     (if m_active s
      then appended s s' = [OnGrabClipboard (info_id e)] \<and>
           \<not> m_sentClipboard s' (info_id e) \<and> m_timeClipboard s' (info_id e) = 0 \<and>
           (info_id e < kClipboardEnd K \<longrightarrow>
              (\<exists>s''. leave K e' s' = Some s'' \<and>
                 OnClipboardChanged (info_id e) (snd (screen_getClipboard e' (info_id e)))
                   \<in> set (appended s' s'')))
      else appended s s' =
             [OnGrabClipboard (info_id e), ClipboardOpen 0, ScreenGetClipboard (info_id e),
              OnClipboardChanged (info_id e) (snd (screen_getClipboard e (info_id e)))] \<and>
           m_sentClipboard s' (info_id e) \<and>
           m_timeClipboard s' (info_id e) = fst (screen_getClipboard e (info_id e)) \<and>
           m_dataClipboard s' (info_id e) = snd (screen_getClipboard e (info_id e)))"
proof -
  define s2 where
    "s2 = s\<lparr>trace := trace s @ [OnGrabClipboard (info_id e)],
            m_ownClipboard := (m_ownClipboard s)(info_id e := True),
            m_sentClipboard := (m_sentClipboard s)(info_id e := False),
            m_timeClipboard := (m_timeClipboard s)(info_id e := 0)\<rparr>"
  have srv: "m_server s2 \<noteq> None" using assms by (simp add: s2_def)
  have pend: "slot_pending e' s2 (info_id e)"
    by (simp add: s2_def slot_pending_def spec_time_changed_def spec_must_transmit_def)
  show ?thesis
  proof (cases "m_active s")
    case True
    then have h: "handleClipboardGrabbed e s = Some s2"
      using assms by (simp add: handleClipboardGrabbed_nf s2_def)
    have later: "\<exists>s''. leave K e' s2 = Some s'' \<and>
                 OnClipboardChanged (info_id e) (snd (screen_getClipboard e' (info_id e)))
                   \<in> set (appended s2 s'')"
      if lt: "info_id e < kClipboardEnd K"
    proof -
      from leave_effect [OF srv, of K e'] obtain s'' acts where
        l: "leave K e' s2 = Some s''" "trace s'' = trace s2 @ ScreenLeave # acts"
          "filter is_any_payload acts =
             map (\<lambda>c. OnClipboardChanged c (snd (screen_getClipboard e' c)))
               (filter (slot_pending e' s2) [0..<kClipboardEnd K])"
        by blast
      from lt pend have "info_id e \<in> set (filter (slot_pending e' s2) [0..<kClipboardEnd K])"
        by simp
      then have "OnClipboardChanged (info_id e) (snd (screen_getClipboard e' (info_id e)))
                   \<in> set (filter is_any_payload acts)"
        unfolding l(3) set_map by (rule rev_image_eqI) (rule refl)
      then have "OnClipboardChanged (info_id e) (snd (screen_getClipboard e' (info_id e)))
                   \<in> set acts"
        by simp
      with l show ?thesis by (auto simp add: appended_def)
    qed
    have "m_ownClipboard s2 (info_id e)" "hd (appended s s2) = OnGrabClipboard (info_id e)"
      "appended s s2 = [OnGrabClipboard (info_id e)]"
      "\<not> m_sentClipboard s2 (info_id e)" "m_timeClipboard s2 (info_id e) = 0"
      by (simp_all add: s2_def appended_def)
    with True h later show ?thesis by simp
  next
    case False
    define s3 where "s3 = the (sendClipboard e (info_id e) s2)"
    have h: "handleClipboardGrabbed e s = Some s3"
      using False assms by (simp add: handleClipboardGrabbed_nf s2_def s3_def sendClipboard_nf)
    have tc: "spec_time_changed e s2 (info_id e)" "spec_must_transmit e s2 (info_id e)"
      by (simp_all add: s2_def spec_time_changed_def spec_must_transmit_def)
    have "m_ownClipboard s3 (info_id e)"
      "appended s s3 =
             [OnGrabClipboard (info_id e), ClipboardOpen 0, ScreenGetClipboard (info_id e),
              OnClipboardChanged (info_id e) (snd (screen_getClipboard e (info_id e)))]"
      "m_sentClipboard s3 (info_id e)"
      "m_timeClipboard s3 (info_id e) = fst (screen_getClipboard e (info_id e))"
      "m_dataClipboard s3 (info_id e) = snd (screen_getClipboard e (info_id e))"
      unfolding s3_def sendClipboard_nf [OF srv]
      by (simp_all add: tc) (simp_all add: s2_def appended_def)
    with False h show ?thesis by simp
  qed
qed

lemma session_grabbed_inactive_eval:
  "handleClipboardGrabbed env0 session_active = Some session_grabbed_inactive"
proof -
  have "handleClipboardGrabbed env0 session_active \<noteq> None"
    by (simp add: handleClipboardGrabbed_nf sendClipboard_nf session_active_fields)
  then show ?thesis by (simp add: session_grabbed_inactive_def)
qed

theorem handleClipboardGrabbed_notifies_then_sends_witness:
  "m_server session_active \<noteq> None \<and> \<not> m_active session_active \<and>
   handleClipboardGrabbed env0 session_active = Some session_grabbed_inactive \<and>
   appended session_active session_grabbed_inactive =
     [OnGrabClipboard 0, ClipboardOpen 0, ScreenGetClipboard 0, OnClipboardChanged 0 ''A''] \<and>
   m_server session_entered \<noteq> None \<and> m_active session_entered \<and>
   handleClipboardGrabbed env0 session_entered = Some session_grabbed \<and>
   appended session_entered session_grabbed = [OnGrabClipboard 0]"
proof -
  have a: "m_server session_active \<noteq> None" "\<not> m_active session_active"
    by (simp_all add: session_active_fields)
  from handleClipboardGrabbed_notifies_then_sends [OF a(1), of env0 K16 env0] a(2)
    session_grabbed_inactive_eval
  have 1: "appended session_active session_grabbed_inactive =
     [OnGrabClipboard 0, ClipboardOpen 0, ScreenGetClipboard 0, OnClipboardChanged 0 ''A'']"
    by (auto simp add: env0_def)
  from handleClipboardGrabbed_notifies_then_sends [OF session_grabbed_fields(1), of env0 K16 env0]
    session_grabbed_fields(2,3)
  have 2: "appended session_entered session_grabbed = [OnGrabClipboard 0]"
    by (auto simp add: env0_def)
  from a 1 2 session_grabbed_inactive_eval session_grabbed_fields(1-3) show ?thesis by simp
qed


end
